theory Spec2Isabelle
  imports Complex_Main "HOL-Library.Word"
begin

section \<open>Python values used by \<open>pitch/pitch.py\<close>\<close>

text \<open>
  The exceptions that the modelled code can meet. \<open>StructError\<close> is \<open>struct.error\<close>,
  \<open>QueueFull\<close> and \<open>QueueEmpty\<close> are \<open>queue.Full\<close> and \<open>queue.Empty\<close>,
  \<open>OtherException\<close> is any further class derived from \<open>Exception\<close> (with its message), and
  \<open>NonException\<close> is a signal that derives from \<open>BaseException\<close> only
  (\<open>KeyboardInterrupt\<close>, \<open>SystemExit\<close>), which \<open>except Exception\<close> does not catch.
\<close>

datatype py_exception =
    StructError
  | ValueError
  | KeyError
  | OverflowError
  | QueueFull
  | QueueEmpty
  | RateLimitedException
  | OtherException string
  | NonException string

text \<open>\<open>isinstance(e, Exception)\<close>.\<close>

fun is_Exception :: "py_exception \<Rightarrow> bool" where
  "is_Exception (NonException _) = False"
| "is_Exception _ = True"

type_synonym u8 = "8 word"

section \<open>The beacon decoder: \<open>IBeaconParser.parse\<close>\<close>

text \<open>
  The value returned by \<open>parse\<close> is a \<open>SimpleNamespace\<close> with the attributes \<open>uuid\<close>,
  \<open>major\<close>, \<open>minor\<close> and \<open>tx_power\<close>. The packet of the beacon simulator is a
  \<open>Namespace\<close> with no \<open>tx_power\<close> attribute, hence the option.
\<close>

record packet =
  uuid :: string
  major :: int
  minor :: int
  tx_power :: "int option"

text \<open>The slice \<open>xs[a:b]\<close> for \<open>0 \<le> a \<le> b\<close>: it never raises and is cut at the end of \<open>xs\<close>.\<close>

definition py_slice :: "nat \<Rightarrow> nat \<Rightarrow> 'a list \<Rightarrow> 'a list" where
  "py_slice a b xs = take (b - a) (drop a xs)"

text \<open>The format \<open>H\<close> under \<open>>\<close>: two bytes, big-endian, unsigned.\<close>

definition be_uint16 :: "u8 \<Rightarrow> u8 \<Rightarrow> int" where
  "be_uint16 hi lo = uint hi * 256 + uint lo"

text \<open>
  \<open>struct.unpack(">16sHHb", buf)\<close>: the buffer must hold exactly 21 bytes, else
  \<open>struct.error\<close>; \<open>16s\<close> is the first 16 bytes, \<open>b\<close> a signed byte.
\<close>

definition struct_unpack_16sHHb :: "u8 list \<Rightarrow> py_exception + (u8 list \<times> int \<times> int \<times> int)" where
  "struct_unpack_16sHHb buf =
     (if length buf \<noteq> 21 then Inl StructError
      else Inr (take 16 buf,
                be_uint16 (buf ! 16) (buf ! 17),
                be_uint16 (buf ! 18) (buf ! 19),
                sint (buf ! 20)))"

text \<open>
  \<open>str(uuid.UUID(bytes=b))\<close>: \<open>ValueError\<close> unless \<open>b\<close> has 16 bytes; the string is the 32
  lower-case hexadecimal digits of the bytes in order, grouped 8-4-4-4-12 with hyphens.
\<close>

definition hex_digit :: "nat \<Rightarrow> char" where
  "hex_digit n = ''0123456789abcdef'' ! n"

definition hex_byte :: "u8 \<Rightarrow> string" where
  "hex_byte b = [hex_digit (unat b div 16), hex_digit (unat b mod 16)]"

definition hex_of_bytes :: "u8 list \<Rightarrow> string" where
  "hex_of_bytes bs = concat (map hex_byte bs)"

definition uuid_str :: "u8 list \<Rightarrow> py_exception + string" where
  "uuid_str bs =
     (if length bs \<noteq> 16 then Inl ValueError
      else let h = hex_of_bytes bs
           in Inr (py_slice 0 8 h @ ''-'' @ py_slice 8 12 h @ ''-'' @ py_slice 12 16 h @ ''-''
                   @ py_slice 16 20 h @ ''-'' @ drop 20 h))"

definition parse :: "u8 list \<Rightarrow> py_exception + packet option" where
  "parse manufacturer_data =
     (if length manufacturer_data < 23 then Inr None
      else if manufacturer_data ! 0 \<noteq> 0x02 \<or> manufacturer_data ! 1 \<noteq> 0x15 then Inr None
      else case struct_unpack_16sHHb (py_slice 2 23 manufacturer_data) of
             Inl e \<Rightarrow> Inl e
           | Inr (uuid_bytes, mj, mn, tx) \<Rightarrow>
               (case uuid_str uuid_bytes of
                  Inl e \<Rightarrow> Inl e
                | Inr u \<Rightarrow> Inr (Some \<lparr>uuid = u, major = mj, minor = mn, tx_power = Some tx\<rparr>)))"

section \<open>Gravity: \<open>_get_decimal_gravity\<close>\<close>

text \<open>
  \<open>gravity * .001\<close> multiplies a Python \<open>int\<close> by a \<open>float\<close>: the integer is first converted
  to a double (rounded to 53 significant bits, ties to even; \<open>OverflowError\<close> when the
  result would reach \<open>2 ^ 1024\<close>), then the two doubles are multiplied and the exact
  product is rounded in the same way. The double written \<open>.001\<close> is
  \<open>4611686018427388 / 2 ^ 62\<close>. A finite double is a rational number and is modelled as
  one.
\<close>

text \<open>\<open>n.bit_length()\<close> for \<open>n \<ge> 0\<close>.\<close>

function bit_length :: "int \<Rightarrow> nat" where
  "bit_length n = (if n \<le> 0 then 0 else Suc (bit_length (n div 2)))"
  by pat_completeness auto
termination
  by (relation "measure nat") auto

declare bit_length.simps [simp del]

text \<open>A non-negative integer rounded to 53 significant bits, ties to even.\<close>

definition round53 :: "int \<Rightarrow> int" where
  "round53 n =
     (let k = bit_length n - 53
      in if k = 0 then n
         else let q = n div 2 ^ k; r = n mod 2 ^ k; h = 2 ^ (k - 1)
              in (if h < r \<or> (r = h \<and> odd q) then q + 1 else q) * 2 ^ k)"

text \<open>\<open>float(g)\<close>; the double it returns is a whole number.\<close>

definition float_of_int :: "int \<Rightarrow> py_exception + int" where
  "float_of_int g =
     (let m = round53 \<bar>g\<bar>
      in if 2 ^ 1024 \<le> m then Inl OverflowError else Inr (sgn g * m))"

text \<open>\<open>x * .001\<close> for a double \<open>x\<close> that is a whole number.\<close>

definition times_001 :: "int \<Rightarrow> rat" where
  "times_001 x = of_int (sgn x * round53 (\<bar>x\<bar> * 4611686018427388)) / 2 ^ 62"

definition get_decimal_gravity :: "int \<Rightarrow> py_exception + rat" where
  "get_decimal_gravity gravity =
     (case float_of_int gravity of Inl e \<Rightarrow> Inl e | Inr x \<Rightarrow> Inr (times_001 x))"

section \<open>Statics and configuration\<close>

definition uuid_to_colors_items :: "(string \<times> string) list" where
  "uuid_to_colors_items =
     [(''a495bb20-c5b1-4b44-b512-1370f02d74de'', ''green''),
      (''a495bb30-c5b1-4b44-b512-1370f02d74de'', ''black''),
      (''a495bb10-c5b1-4b44-b512-1370f02d74de'', ''red''),
      (''a495bb60-c5b1-4b44-b512-1370f02d74de'', ''blue''),
      (''a495bb50-c5b1-4b44-b512-1370f02d74de'', ''orange''),
      (''a495bb70-c5b1-4b44-b512-1370f02d74de'', ''yellow''),
      (''a495bb40-c5b1-4b44-b512-1370f02d74de'', ''purple''),
      (''a495bb80-c5b1-4b44-b512-1370f02d74de'', ''pink''),
      (''a495bb40-c5b1-4b44-b512-1370f02d74df'', ''simulated'')]"

definition uuid_to_colors :: "string \<rightharpoonup> string" where
  "uuid_to_colors = map_of uuid_to_colors_items"

text \<open>
  \<open>dict((v, k) for k, v in uuid_to_colors.items())\<close>: a later pair overrides an earlier one
  with the same key, so the list is read from its end.
\<close>

definition colors_to_uuid :: "string \<rightharpoonup> string" where
  "colors_to_uuid = map_of (rev (map (\<lambda>(k, v). (v, k)) uuid_to_colors_items))"

definition APPLE_MANUFACTURER_ID :: nat where
  "APPLE_MANUFACTURER_ID = 0x004C"

text \<open>
  The two values of \<open>PitchConfig\<close> (module \<open>configuration\<close>) that \<open>pitch.py\<close> reads
  itself. Both come from the configuration file and are not restricted here.
\<close>

record pitch_config =
  queue_size :: int
  queue_empty_sleep_seconds :: rat

text \<open>
  Modelled from the spec: the class \<open>TiltStatus\<close> of the module \<open>models\<close>. A Reading has a
  logical name, a temperature, a gravity and two validity flags. \<open>pitch.py\<close> reads
  exactly these attributes. Its constructor and its method \<open>json\<close> are parameters of the
  functions below.
\<close>

record tilt_status =
  color :: string
  temp_fahrenheit :: rat
  gravity :: rat
  temp_valid :: bool
  gravity_valid :: bool

text \<open>
  Modelled from the spec: a constructor of \<open>TiltStatus\<close> that uses the major value
  directly as temperature and the decimal gravity as gravity, and sets each validity
  flag by a fixed acceptable range.
\<close>

definition TiltStatus_ranges ::
  "rat \<times> rat \<Rightarrow> rat \<times> rat \<Rightarrow> string \<Rightarrow> int \<Rightarrow> rat \<Rightarrow> tilt_status" where
  "TiltStatus_ranges temp_range gravity_range c t g =
     \<lparr>color = c, temp_fahrenheit = of_int t, gravity = g,
      temp_valid = (fst temp_range \<le> of_int t \<and> of_int t \<le> snd temp_range),
      gravity_valid = (fst gravity_range \<le> g \<and> g \<le> snd gravity_range)\<rparr>"

section \<open>What the program prints and calls\<close>

datatype log_line =
    IgnoringInvalidTemperature rat
  | IgnoringInvalidGravity rat
  | QueueIsFull nat
  | UpdatedProvider string string
  | SkippingRateLimited string string
  | PrintException py_exception
  | PrintJson string
  | ErrorInConsumerLoop py_exception

text \<open>
  \<open>Invoke p r\<close> is the call \<open>provider.update(tilt_status)\<close> on the provider whose \<open>str\<close>
  is \<open>p\<close>; \<open>Sleep s\<close> is \<open>time.sleep(s)\<close>.
\<close>

datatype event =
    Print log_line
  | Invoke string tilt_status
  | Sleep rat

section \<open>The ingest queue: \<open>queue.Queue(maxsize=config.queue_size)\<close>\<close>

text \<open>
  The queue is the list of its items, oldest first. As in the standard library, a
  \<open>maxsize\<close> of zero or less means a queue without bound, which is never full.
\<close>

definition queue_full :: "int \<Rightarrow> 'a list \<Rightarrow> bool" where
  "queue_full maxsize q = (0 < maxsize \<and> maxsize \<le> int (length q))"

definition queue_empty :: "'a list \<Rightarrow> bool" where
  "queue_empty q = (length q = 0)"

definition queue_put_nowait :: "int \<Rightarrow> 'a \<Rightarrow> 'a list \<Rightarrow> py_exception + 'a list" where
  "queue_put_nowait maxsize x q =
     (if 0 < maxsize \<and> maxsize \<le> int (length q) then Inl QueueFull else Inr (q @ [x]))"

text \<open>
  \<open>get(timeout=1)\<close> at a moment when no producer step comes within the wait: an item
  that arrives during the wait is a producer step placed before the call.
\<close>

definition queue_get :: "'a list \<Rightarrow> py_exception + ('a \<times> 'a list)" where
  "queue_get q = (case q of [] \<Rightarrow> Inl QueueEmpty | x # xs \<Rightarrow> Inr (x, xs))"

section \<open>The producer: \<open>_beacon_callback\<close> and its callers\<close>

definition beacon_callback ::
  "pitch_config \<Rightarrow> (string \<Rightarrow> int \<Rightarrow> rat \<Rightarrow> tilt_status) \<Rightarrow> packet \<Rightarrow> tilt_status list
   \<Rightarrow> py_exception + (event list \<times> tilt_status list)" where
  "beacon_callback config TiltStatus pkt pitch_q =
     (if queue_full (queue_size config) pitch_q then Inr ([], pitch_q)
      else case uuid_to_colors (uuid pkt) of
             None \<Rightarrow> Inr ([], pitch_q)
           | Some c \<Rightarrow>
               if c = [] then Inr ([], pitch_q)
               else (case get_decimal_gravity (minor pkt) of
                       Inl e \<Rightarrow> Inl e
                     | Inr g \<Rightarrow>
                         let status = TiltStatus c (major pkt) g
                         in if \<not> temp_valid status
                            then Inr ([Print (IgnoringInvalidTemperature (temp_fahrenheit status))],
                                      pitch_q)
                            else if \<not> gravity_valid status
                            then Inr ([Print (IgnoringInvalidGravity (gravity status))], pitch_q)
                            else (case queue_put_nowait (queue_size config) status pitch_q of
                                    Inl e \<Rightarrow> Inl e
                                  | Inr q' \<Rightarrow> Inr ([], q'))))"

text \<open>
  \<open>bleak_callback\<close> inside \<open>_run_bleak_scanner\<close>; \<open>manufacturer_data\<close> is the dictionary
  of the advertisement, from manufacturer identifier to payload.
\<close>

definition bleak_callback ::
  "pitch_config \<Rightarrow> (string \<Rightarrow> int \<Rightarrow> rat \<Rightarrow> tilt_status) \<Rightarrow> (nat \<rightharpoonup> u8 list) \<Rightarrow> tilt_status list
   \<Rightarrow> py_exception + (event list \<times> tilt_status list)" where
  "bleak_callback config TiltStatus manufacturer_data pitch_q =
     (case manufacturer_data APPLE_MANUFACTURER_ID of
        None \<Rightarrow> Inr ([], pitch_q)
      | Some raw_data \<Rightarrow>
          (case parse raw_data of
             Inl e \<Rightarrow> Inl e
           | Inr None \<Rightarrow> Inr ([], pitch_q)
           | Inr (Some pkt) \<Rightarrow> beacon_callback config TiltStatus pkt pitch_q))"

text \<open>The packet of \<open>_start_beacon_simulation\<close>; a missing key raises \<open>KeyError\<close>.\<close>

definition fake_packet :: "py_exception + packet" where
  "fake_packet =
     (case colors_to_uuid ''simulated'' of
        None \<Rightarrow> Inl KeyError
      | Some u \<Rightarrow> Inr \<lparr>uuid = u, major = 70, minor = 1035, tx_power = None\<rparr>)"

text \<open>
  One event of the scan source: an advertisement seen by the live scanner, or one round
  of the simulator's loop.
\<close>

datatype broadcast = Advertisement "nat \<rightharpoonup> u8 list" | Simulated

definition producer_step ::
  "pitch_config \<Rightarrow> (string \<Rightarrow> int \<Rightarrow> rat \<Rightarrow> tilt_status) \<Rightarrow> broadcast \<Rightarrow> tilt_status list
   \<Rightarrow> py_exception + (event list \<times> tilt_status list)" where
  "producer_step config TiltStatus b pitch_q =
     (case b of
        Advertisement manufacturer_data \<Rightarrow>
          bleak_callback config TiltStatus manufacturer_data pitch_q
      | Simulated \<Rightarrow>
          (case fake_packet of
             Inl e \<Rightarrow> Inl e
           | Inr pkt \<Rightarrow> beacon_callback config TiltStatus pkt pitch_q))"

text \<open>
  The producer handles a sequence of broadcasts. An exception would end it: the result
  then holds what was printed and queued before, and the exception.
\<close>

fun producer_run ::
  "pitch_config \<Rightarrow> (string \<Rightarrow> int \<Rightarrow> rat \<Rightarrow> tilt_status) \<Rightarrow> broadcast list \<Rightarrow> tilt_status list
   \<Rightarrow> event list \<times> tilt_status list \<times> py_exception option" where
  "producer_run config TiltStatus [] pitch_q = ([], pitch_q, None)"
| "producer_run config TiltStatus (b # bs) pitch_q =
     (case producer_step config TiltStatus b pitch_q of
        Inl e \<Rightarrow> ([], pitch_q, Some e)
      | Inr (evs, q') \<Rightarrow>
          (case producer_run config TiltStatus bs q' of
             (evs', r) \<Rightarrow> (evs @ evs', r)))"

section \<open>The consumer: \<open>_handle_pitch_queue\<close> and \<open>_run_queue_consumer\<close>\<close>

text \<open>
  A provider is known to the loop by its \<open>str\<close> and its method \<open>update\<close>. What \<open>update\<close>
  does is the provider's own business: it reads and changes a state \<open>'w\<close> (the
  provider objects and everything they talk to), and it returns or raises.
\<close>

record 'w provider =
  provider_str :: string
  provider_update :: "tilt_status \<Rightarrow> 'w \<Rightarrow> py_exception option \<times> 'w"

text \<open>
  The loop \<open>for provider in enabled_providers\<close>. The result is what was called and
  printed, the state the providers leave, and the exception that left the loop, if any:
  only one that neither \<open>except\<close> clause catches.
\<close>

fun dispatch ::
  "'w provider list \<Rightarrow> bool \<Rightarrow> tilt_status \<Rightarrow> 'w \<Rightarrow> event list \<times> 'w \<times> py_exception option" where
  "dispatch [] console_log status w = ([], w, None)"
| "dispatch (p # ps) console_log status w =
     (case provider_update p status w of
        (None, w') \<Rightarrow>
          (case dispatch ps console_log status w' of
             (evs, w'', x) \<Rightarrow>
               (Invoke (provider_str p) status
                  # (if console_log
                     then [Print (UpdatedProvider (provider_str p) (color status))] else [])
                  @ evs, w'', x))
      | (Some e, w') \<Rightarrow>
          if e = RateLimitedException then
            (case dispatch ps console_log status w' of
               (evs, w'', x) \<Rightarrow>
                 (Invoke (provider_str p) status
                    # Print (SkippingRateLimited (provider_str p) (color status)) # evs, w'', x))
          else if is_Exception e then
            (case dispatch ps console_log status w' of
               (evs, w'', x) \<Rightarrow>
                 (Invoke (provider_str p) status # Print (PrintException e) # evs, w'', x))
          else ([Invoke (provider_str p) status], w', Some e))"

definition handle_pitch_queue ::
  "pitch_config \<Rightarrow> (tilt_status \<Rightarrow> py_exception + string) \<Rightarrow> 'w provider list \<Rightarrow> bool
   \<Rightarrow> tilt_status list \<times> 'w \<Rightarrow> event list \<times> tilt_status list \<times> 'w \<times> py_exception option" where
  "handle_pitch_queue config json enabled_providers console_log s =
     (case s of (pitch_q, w) \<Rightarrow>
        if 0 < queue_empty_sleep_seconds config \<and> queue_empty pitch_q
        then ([Sleep (queue_empty_sleep_seconds config)], pitch_q, w, None)
        else
          let warning = (if queue_full (queue_size config) pitch_q
                         then [Print (QueueIsFull (length pitch_q))] else [])
          in case queue_get pitch_q of
               Inl e \<Rightarrow> (warning, pitch_q, w, if e = QueueEmpty then None else Some e)
             | Inr (status, q') \<Rightarrow>
                 (case dispatch enabled_providers console_log status w of
                    (evs, w', Some e) \<Rightarrow> (warning @ evs, q', w', Some e)
                  | (evs, w', None) \<Rightarrow>
                      if console_log then
                        (case json status of
                           Inl e \<Rightarrow> (warning @ evs, q', w', Some e)
                         | Inr text \<Rightarrow> (warning @ evs @ [Print (PrintJson text)], q', w', None))
                      else (warning @ evs, q', w', None)))"

text \<open>
  One round of \<open>while True\<close> in \<open>_run_queue_consumer\<close>. \<open>expired\<close> is the value that the
  test \<open>timeout_seconds > 0 and (time.time() - start_time > timeout_seconds)\<close> has when
  this round reaches it.
\<close>

datatype loop_status = Running | Returned | Died py_exception

definition consumer_round ::
  "pitch_config \<Rightarrow> (tilt_status \<Rightarrow> py_exception + string) \<Rightarrow> 'w provider list \<Rightarrow> bool \<Rightarrow> bool
   \<Rightarrow> tilt_status list \<times> 'w \<Rightarrow> event list \<times> tilt_status list \<times> 'w \<times> loop_status" where
  "consumer_round config json enabled_providers console_log expired s =
     (case handle_pitch_queue config json enabled_providers console_log s of
        (evs, q', w', None) \<Rightarrow> (evs, q', w', if expired then Returned else Running)
      | (evs, q', w', Some e) \<Rightarrow>
          if is_Exception e
          then (evs @ [Print (ErrorInConsumerLoop e), Sleep 1], q', w', Running)
          else (evs, q', w', Died e))"

text \<open>
  \<open>_run_queue_consumer\<close> beside the producer. The loop has no end of its own, so it
  is run along a schedule: each entry gives the broadcasts that the producer handles
  before the next round of the consumer, and the value of the time test in that round.
  At the end of the schedule a loop that has not stopped is still \<open>Running\<close>.
\<close>

fun run_queue_consumer ::
  "pitch_config \<Rightarrow> (string \<Rightarrow> int \<Rightarrow> rat \<Rightarrow> tilt_status) \<Rightarrow> (tilt_status \<Rightarrow> py_exception + string)
   \<Rightarrow> 'w provider list \<Rightarrow> bool \<Rightarrow> (broadcast list \<times> bool) list \<Rightarrow> tilt_status list \<times> 'w
   \<Rightarrow> event list \<times> tilt_status list \<times> 'w \<times> loop_status" where
  "run_queue_consumer config TiltStatus json enabled_providers console_log [] s =
     ([], fst s, snd s, Running)"
| "run_queue_consumer config TiltStatus json enabled_providers console_log ((bs, expired) # sched) s =
     (case producer_run config TiltStatus bs (fst s) of
        (evs0, q0, _) \<Rightarrow>
          (case consumer_round config json enabled_providers console_log expired (q0, snd s) of
             (evs1, q1, w1, Running) \<Rightarrow>
               (case run_queue_consumer config TiltStatus json enabled_providers console_log
                       sched (q1, w1) of
                  (evs2, r) \<Rightarrow> (evs0 @ evs1 @ evs2, r))
           | (evs1, q1, w1, st) \<Rightarrow> (evs0 @ evs1, q1, w1, st)))"

section \<open>Vocabulary of the properties\<close>

text \<open>The calls of \<open>update\<close> among the events, and the queue-full warnings among them.\<close>

fun is_Invoke :: "event \<Rightarrow> bool" where
  "is_Invoke (Invoke _ _) = True"
| "is_Invoke _ = False"

fun is_QueueIsFull :: "event \<Rightarrow> bool" where
  "is_QueueIsFull (Print (QueueIsFull _)) = True"
| "is_QueueIsFull _ = False"

text \<open>
  The payload of the documented layout, which the program only ever reads: the two
  marker bytes, the 16-byte identifier, then major, minor (16 bits each, big-endian) and
  the transmit power (one byte, read as signed).
\<close>

definition build_payload :: "u8 list \<Rightarrow> 16 word \<Rightarrow> 16 word \<Rightarrow> 8 word \<Rightarrow> u8 list" where
  "build_payload ident mj mn tx =
     [0x02, 0x15] @ ident
       @ [ucast (drop_bit 8 mj), ucast mj, ucast (drop_bit 8 mn), ucast mn, tx]"

section \<open>Example instances\<close>

text \<open>
  Concrete values on which the properties below are evaluated: a configuration with a
  given queue size, the constructor of the reading with the ranges 0 to 100 degrees and
  0.9 to 1.2, a \<open>json\<close> that never raises, the identifier and a packet of the green
  device, the double \<open>1035 * .001\<close>, and two providers over a counter of the updates
  that succeeded.
\<close>

definition example_config :: "int \<Rightarrow> pitch_config" where
  "example_config n = \<lparr>queue_size = n, queue_empty_sleep_seconds = 1\<rparr>"

definition example_TiltStatus :: "string \<Rightarrow> int \<Rightarrow> rat \<Rightarrow> tilt_status" where
  "example_TiltStatus = TiltStatus_ranges (0, 100) (9 / 10, 6 / 5)"

definition example_json :: "tilt_status \<Rightarrow> py_exception + string" where
  "example_json status = Inr (color status)"

definition green_ident :: "u8 list" where
  "green_ident = [0xa4, 0x95, 0xbb, 0x20, 0xc5, 0xb1, 0x4b, 0x44,
                  0xb5, 0x12, 0x13, 0x70, 0xf0, 0x2d, 0x74, 0xde]"

definition green_packet :: "int \<Rightarrow> packet" where
  "green_packet t = \<lparr>uuid = ''a495bb20-c5b1-4b44-b512-1370f02d74de'', major = t, minor = 1035,
                      tx_power = Some (- 72)\<rparr>"

definition gravity_1035 :: rat where
  "gravity_1035 = 4661225614328463 / 4503599627370496"

definition counting_sink :: "string \<Rightarrow> nat provider" where
  "counting_sink n = \<lparr>provider_str = n, provider_update = (\<lambda>status w. (None, Suc w))\<rparr>"

definition raising_sink :: "string \<Rightarrow> py_exception \<Rightarrow> nat provider" where
  "raising_sink n e = \<lparr>provider_str = n, provider_update = (\<lambda>status w. (Some e, w))\<rparr>"

section \<open>Properties of the decoder\<close>

lemma parse_never_raises: "\<exists>r. parse d = Inr r"
  by (auto simp: parse_def struct_unpack_16sHHb_def py_slice_def uuid_str_def Let_def
      split: sum.splits)

lemma hex_digit_inj: "a < 16 \<Longrightarrow> b < 16 \<Longrightarrow> hex_digit a = hex_digit b \<Longrightarrow> a = b"
proof -
  assume ab: "a < 16" "b < 16" and eq: "hex_digit a = hex_digit b"
  have d: "distinct ''0123456789abcdef''" by simp
  have l: "length ''0123456789abcdef'' = 16" by simp
  from nth_eq_iff_index_eq[OF d, of a b] ab eq l show ?thesis
    by (simp add: hex_digit_def)
qed

lemma hex_byte_inj: "hex_byte a = hex_byte b \<Longrightarrow> a = b"
proof -
  assume eq: "hex_byte a = hex_byte b"
  have la: "unat a < 256" using unsigned_less[of a, where 'a=nat] by simp
  have lb: "unat b < 256" using unsigned_less[of b, where 'a=nat] by simp
  from la lb have lt: "unat a div 16 < 16" "unat b div 16 < 16"
      "unat a mod 16 < 16" "unat b mod 16 < 16"
    by simp_all
  from eq have "hex_digit (unat a div 16) = hex_digit (unat b div 16)"
    "hex_digit (unat a mod 16) = hex_digit (unat b mod 16)"
    by (simp_all add: hex_byte_def)
  with lt have "unat a div 16 = unat b div 16" "unat a mod 16 = unat b mod 16"
    by (simp_all add: hex_digit_inj)
  then have "unat a = unat b"
    by (metis div_mult_mod_eq)
  then show ?thesis by (simp add: word_unat_eq_iff)
qed

lemma hex_of_bytes_inj:
  "length xs = length ys \<Longrightarrow> hex_of_bytes xs = hex_of_bytes ys \<Longrightarrow> xs = ys"
proof (induction xs ys rule: list_induct2)
  case Nil
  then show ?case by simp
next
  case (Cons x xs y ys)
  from Cons.prems have "hex_byte x @ hex_of_bytes xs = hex_byte y @ hex_of_bytes ys"
    by (simp add: hex_of_bytes_def)
  then have "hex_byte x = hex_byte y" "hex_of_bytes xs = hex_of_bytes ys"
    by (simp_all add: hex_byte_def)
  with Cons.IH show ?case by (simp add: hex_byte_inj)
qed

lemma length_hex_of_bytes: "length (hex_of_bytes xs) = 2 * length xs"
  by (induction xs) (simp_all add: hex_of_bytes_def hex_byte_def)

lemma regroup:
  "take 8 z @ take 4 (drop 8 z) @ take 4 (drop 12 z) @ take 4 (drop 16 z) @ drop 20 z = z"
proof -
  have e1: "take 4 (drop 16 z) @ drop 20 z = drop 16 z"
    using append_take_drop_id[of 4 "drop 16 z"] by simp
  have e2: "take 4 (drop 12 z) @ drop 16 z = drop 12 z"
    using append_take_drop_id[of 4 "drop 12 z"] by simp
  have e3: "take 4 (drop 8 z) @ drop 12 z = drop 8 z"
    using append_take_drop_id[of 4 "drop 8 z"] by simp
  show ?thesis by (simp add: e1 e2 e3)
qed

text \<open>The string of an identifier determines its 16 bytes.\<close>

lemma uuid_str_inj: "uuid_str xs = Inr u \<Longrightarrow> uuid_str ys = Inr u \<Longrightarrow> xs = ys"
proof -
  assume a: "uuid_str xs = Inr u" "uuid_str ys = Inr u"
  then have l: "length xs = 16" "length ys = 16"
    by (auto simp: uuid_str_def split: if_splits)
  define h where "h = hex_of_bytes xs"
  define k where "k = hex_of_bytes ys"
  have lh: "length h = 32" "length k = 32"
    using l by (simp_all add: h_def k_def length_hex_of_bytes)
  from a l have "take 8 h @ ''-'' @ take 4 (drop 8 h) @ ''-'' @ take 4 (drop 12 h) @ ''-''
        @ take 4 (drop 16 h) @ ''-'' @ drop 20 h
     = take 8 k @ ''-'' @ take 4 (drop 8 k) @ ''-'' @ take 4 (drop 12 k) @ ''-''
        @ take 4 (drop 16 k) @ ''-'' @ drop 20 k"
    by (simp add: uuid_str_def py_slice_def Let_def h_def k_def)
  with lh have "take 8 h = take 8 k" "take 4 (drop 8 h) = take 4 (drop 8 k)"
     "take 4 (drop 12 h) = take 4 (drop 12 k)" "take 4 (drop 16 h) = take 4 (drop 16 k)"
     "drop 20 h = drop 20 k"
    by simp_all
  then have "take 8 h @ take 4 (drop 8 h) @ take 4 (drop 12 h) @ take 4 (drop 16 h) @ drop 20 h
     = take 8 k @ take 4 (drop 8 k) @ take 4 (drop 12 k) @ take 4 (drop 16 k) @ drop 20 k"
    by simp
  then have "h = k" by (simp only: regroup)
  then show ?thesis using l hex_of_bytes_inj by (simp add: h_def k_def)
qed

lemma be_uint16_split: "be_uint16 (ucast (drop_bit 8 w)) (ucast w) = uint (w :: 16 word)"
proof -
  have lt: "uint w < 65536" using uint_lt2p[of w] by simp
  have ge: "0 \<le> uint w" by simp
  have lo: "uint (ucast w :: 8 word) = uint w mod 256"
    by (simp add: unsigned_ucast_eq take_bit_eq_mod)
  have hi: "uint (ucast (drop_bit 8 w) :: 8 word) = uint w div 256"
  proof -
    have "uint (drop_bit 8 w) = uint w div 256"
      by (simp add: drop_bit_eq_div uint_div_distrib)
    moreover have "uint (ucast (drop_bit 8 w) :: 8 word) = uint (drop_bit 8 w) mod 256"
      by (simp only: unsigned_ucast_eq take_bit_eq_mod) simp
    ultimately show ?thesis using lt ge by simp
  qed
  show ?thesis by (simp add: be_uint16_def lo hi)
qed

lemma be_uint16_range: "0 \<le> be_uint16 a b \<and> be_uint16 a b < 65536"
  using uint_lt2p[of a] uint_lt2p[of b] by (simp add: be_uint16_def)

lemma parse_minor_range:
  "parse d = Inr (Some pkt) \<Longrightarrow> 0 \<le> minor pkt \<and> minor pkt < 65536"
  using be_uint16_range
  by (auto simp: parse_def struct_unpack_16sHHb_def split: if_splits sum.splits)

lemma parse_build:
  assumes "uuid_str ident = Inr u"
  shows "parse (build_payload ident mj mn tx @ rest)
           = Inr (Some \<lparr>uuid = u, major = uint mj, minor = uint mn, tx_power = Some (sint tx)\<rparr>)"
proof -
  let ?tail = "[ucast (drop_bit 8 mj), ucast mj, ucast (drop_bit 8 mn), ucast mn, tx]"
  let ?d = "build_payload ident mj mn tx @ rest"
  from assms have l: "length ident = 16"
    by (auto simp: uuid_str_def split: if_splits)
  have s: "py_slice 2 23 ?d = ident @ ?tail"
    using l by (simp add: py_slice_def build_payload_def)
  have u: "struct_unpack_16sHHb (ident @ ?tail) = Inr (ident, uint mj, uint mn, sint tx)"
    using l by (simp add: struct_unpack_16sHHb_def nth_append be_uint16_split)
  have "parse ?d =
      (case struct_unpack_16sHHb (py_slice 2 23 ?d) of
         Inl e \<Rightarrow> Inl e
       | Inr (uuid_bytes, mj, mn, tx) \<Rightarrow>
           (case uuid_str uuid_bytes of
              Inl e \<Rightarrow> Inl e
            | Inr u \<Rightarrow> Inr (Some \<lparr>uuid = u, major = mj, minor = mn, tx_power = Some tx\<rparr>)))"
    using l by (simp add: parse_def build_payload_def)
  then show ?thesis by (simp add: s u assms)
qed

text \<open>
  Claim C4. A payload of fewer than 23 bytes, and a payload whose first two bytes are
  not \<open>0x02 0x15\<close>, is answered by \<open>None\<close> (not recognized); the decoder returns this
  value and raises nothing.
\<close>

theorem parse_not_recognized:
  "length d < 23 \<or> take 2 d \<noteq> [0x02, 0x15] \<Longrightarrow> parse d = Inr None"
proof (cases "length d < 23")
  case True
  then show ?thesis by (simp add: parse_def)
next
  case False
  assume a: "length d < 23 \<or> take 2 d \<noteq> [0x02, 0x15]"
  from False obtain a0 a1 rest where d: "d = a0 # a1 # rest"
    by (cases d; cases "tl d") auto
  with a False show ?thesis by (auto simp add: parse_def)
qed

theorem parse_not_recognized_witness:
  "take 2 ([0x02, 0x16] @ replicate 21 (0 :: u8)) \<noteq> [0x02, 0x15]
   \<and> parse ([0x02, 0x16] @ replicate 21 0) = Inr None
   \<and> length [0x02, 0x15, 0x00 :: u8] < 23
   \<and> parse [0x02, 0x15, 0x00] = Inr None"
  using parse_not_recognized [of "[0x02, 0x16] @ replicate 21 0"]
    parse_not_recognized [of "[0x02, 0x15, 0x00]"]
  by simp

text \<open>
  Claim C6. For every 16-byte identifier, every 16-bit major and minor and every
  8-bit transmit power, the payload built in the documented layout decodes without
  an exception to a packet with the string of that identifier, that major, that minor
  and that transmit power read as a signed byte; and the string belongs to no other
  identifier, so nothing of the identifier is lost.
\<close>

theorem parse_build_payload_roundtrip:
  assumes "length ident = 16"
  shows "\<exists>u. uuid_str ident = Inr u
            \<and> parse (build_payload ident mj mn tx)
                = Inr (Some \<lparr>uuid = u, major = uint mj, minor = uint mn,
                             tx_power = Some (sint tx)\<rparr>)
            \<and> (\<forall>ident'. uuid_str ident' = Inr u \<longrightarrow> ident' = ident)"
proof -
  from assms obtain u where u: "uuid_str ident = Inr u"
    by (simp add: uuid_str_def Let_def)
  from parse_build[OF u, of mj mn tx "[]"]
  have "parse (build_payload ident mj mn tx)
          = Inr (Some \<lparr>uuid = u, major = uint mj, minor = uint mn, tx_power = Some (sint tx)\<rparr>)"
    by simp
  moreover have "\<forall>ident'. uuid_str ident' = Inr u \<longrightarrow> ident' = ident"
    using u uuid_str_inj by blast
  ultimately show ?thesis using u by blast
qed

theorem parse_build_payload_roundtrip_witness:
  "length [0xa4, 0x95, 0xbb, 0x20, 0xc5, 0xb1, 0x4b, 0x44,
           0xb5, 0x12, 0x13, 0x70, 0xf0, 0x2d, 0x74, 0xde :: u8] = 16
   \<and> parse (build_payload [0xa4, 0x95, 0xbb, 0x20, 0xc5, 0xb1, 0x4b, 0x44,
                            0xb5, 0x12, 0x13, 0x70, 0xf0, 0x2d, 0x74, 0xde] 70 1000 0xb8)
       = Inr (Some \<lparr>uuid = ''a495bb20-c5b1-4b44-b512-1370f02d74de'', major = 70, minor = 1000,
                    tx_power = Some (- 72)\<rparr>)"
  using parse_build_payload_roundtrip
          [of "[0xa4, 0x95, 0xbb, 0x20, 0xc5, 0xb1, 0x4b, 0x44,
                0xb5, 0x12, 0x13, 0x70, 0xf0, 0x2d, 0x74, 0xde]" 70 1000 "0xb8"]
  by (auto simp: uuid_str_def hex_of_bytes_def hex_byte_def hex_digit_def py_slice_def Let_def)

text \<open>
  Claim C10. Two payloads of at least 23 bytes that agree on their first 23 bytes are
  decoded to the same result: the bytes from index 23 on are never read.
\<close>

theorem parse_ignores_trailing_bytes:
  assumes "23 \<le> length p" and "23 \<le> length q" and "take 23 p = take 23 q"
  shows "parse p = parse q"
proof -
  have "parse p = parse (take 23 p)"
    using assms(1) by (simp add: parse_def py_slice_def drop_take)
  also have "\<dots> = parse (take 23 q)"
    using assms(3) by simp
  also have "\<dots> = parse q"
    using assms(2) by (simp add: parse_def py_slice_def drop_take)
  finally show ?thesis .
qed

theorem parse_ignores_trailing_bytes_witness:
  "23 \<le> length ([0x02, 0x15] @ replicate 21 (7 :: u8) @ [0xAA])
   \<and> 23 \<le> length ([0x02, 0x15] @ replicate 21 (7 :: u8) @ [0xBB, 0xCC])
   \<and> take 23 ([0x02, 0x15] @ replicate 21 (7 :: u8) @ [0xAA])
       = take 23 ([0x02, 0x15] @ replicate 21 7 @ [0xBB, 0xCC])
   \<and> parse ([0x02, 0x15] @ replicate 21 7 @ [0xAA])
       = parse ([0x02, 0x15] @ replicate 21 7 @ [0xBB, 0xCC])"
  using parse_ignores_trailing_bytes
          [of "[0x02, 0x15] @ replicate 21 7 @ [0xAA]" "[0x02, 0x15] @ replicate 21 7 @ [0xBB, 0xCC]"]
  by simp

section \<open>Properties of the producer\<close>

lemma bit_length_le: "n < 2 ^ k \<Longrightarrow> bit_length n \<le> k"
proof (induction k arbitrary: n)
  case 0
  then show ?case by (simp add: bit_length.simps)
next
  case (Suc k)
  show ?case
  proof (cases "n \<le> 0")
    case True then show ?thesis by (simp add: bit_length.simps)
  next
    case False
    from Suc.prems have "n div 2 < 2 ^ k" by simp
    then have "bit_length (n div 2) \<le> k" by (rule Suc.IH)
    with False show ?thesis by (subst bit_length.simps) simp
  qed
qed

lemma round53_small: "n < 2 ^ 53 \<Longrightarrow> round53 n = n"
  using bit_length_le[of n 53] by (simp add: round53_def)

lemma get_decimal_gravity_small: "\<bar>g\<bar> < 2 ^ 53 \<Longrightarrow> \<exists>x. get_decimal_gravity g = Inr x"
proof -
  assume a: "\<bar>g\<bar> < 2 ^ 53"
  then have "round53 \<bar>g\<bar> = \<bar>g\<bar>" by (rule round53_small)
  moreover have "(2::int) ^ 53 < 2 ^ 1024" by simp
  ultimately have "\<not> 2 ^ 1024 \<le> round53 \<bar>g\<bar>" using a by linarith
  then show ?thesis by (simp add: get_decimal_gravity_def float_of_int_def Let_def)
qed

lemma fake_packet_eq: "fake_packet = Inr \<lparr>uuid = ''a495bb40-c5b1-4b44-b512-1370f02d74df'', major = 70, minor = 1035, tx_power = None\<rparr>"
  by (simp add: fake_packet_def colors_to_uuid_def uuid_to_colors_items_def)

lemma beacon_callback_never_raises:
  assumes "\<bar>minor pkt\<bar> < 2 ^ 53"
  shows "\<exists>evs q'. beacon_callback config T pkt q = Inr (evs, q')"
proof -
  from assms obtain g where g: "get_decimal_gravity (minor pkt) = Inr g"
    using get_decimal_gravity_small by blast
  show ?thesis
    by (simp add: beacon_callback_def g queue_full_def queue_put_nowait_def Let_def split: option.splits)
qed

lemma beacon_callback_full: "queue_full (queue_size config) q \<Longrightarrow> beacon_callback config T pkt q = Inr ([], q)"
  by (simp add: beacon_callback_def)

lemma beacon_callback_cases:
  assumes "beacon_callback config T pkt q = Inr (evs, q')"
  shows "q' = q \<or> (\<exists>c g. uuid_to_colors (uuid pkt) = Some c \<and> get_decimal_gravity (minor pkt) = Inr g
            \<and> temp_valid (T c (major pkt) g) \<and> gravity_valid (T c (major pkt) g)
            \<and> \<not> queue_full (queue_size config) q
            \<and> q' = q @ [T c (major pkt) g] \<and> evs = [])"
  using assms
  by (auto simp: beacon_callback_def queue_put_nowait_def Let_def split: if_splits option.splits sum.splits)

lemma producer_step_never_raises: "\<exists>evs q'. producer_step config T b q = Inr (evs, q')"
proof (cases b)
  case (Advertisement md)
  show ?thesis
  proof (cases "md APPLE_MANUFACTURER_ID")
    case None
    with Advertisement show ?thesis by (simp add: producer_step_def bleak_callback_def)
  next
    case (Some raw)
    obtain r where r: "parse raw = Inr r" using parse_never_raises by blast
    show ?thesis
    proof (cases r)
      case None
      with Advertisement Some r show ?thesis by (simp add: producer_step_def bleak_callback_def)
    next
      case (Some pkt)
      with r have "\<bar>minor pkt\<bar> < 2 ^ 53" using parse_minor_range[of raw pkt] by simp
      from beacon_callback_never_raises[OF this] Advertisement \<open>md APPLE_MANUFACTURER_ID = Some raw\<close> r Some
      show ?thesis by (simp add: producer_step_def bleak_callback_def)
    qed
  qed
next
  case Simulated
  have "\<exists>evs q'. beacon_callback config T \<lparr>uuid = ''a495bb40-c5b1-4b44-b512-1370f02d74df'', major = 70, minor = 1035, tx_power = None\<rparr> q = Inr (evs, q')"
    by (rule beacon_callback_never_raises) simp
  with Simulated show ?thesis by (simp add: producer_step_def fake_packet_eq)
qed

lemma producer_step_full: "queue_full (queue_size config) q \<Longrightarrow> producer_step config T b q = Inr ([], q)"
proof -
  assume f: "queue_full (queue_size config) q"
  obtain evs q' where r: "producer_step config T b q = Inr (evs, q')"
    using producer_step_never_raises by blast
  show ?thesis
  proof (cases b)
    case (Advertisement md)
    show ?thesis
    proof (cases "md APPLE_MANUFACTURER_ID")
      case None
      with Advertisement show ?thesis by (simp add: producer_step_def bleak_callback_def)
    next
      case (Some raw)
      obtain res where "parse raw = Inr res" using parse_never_raises by blast
      with Advertisement Some f show ?thesis
        by (simp add: producer_step_def bleak_callback_def beacon_callback_full split: option.splits)
    qed
  next
    case Simulated
    then show ?thesis using f by (simp add: producer_step_def fake_packet_eq beacon_callback_full)
  qed
qed

lemma producer_step_cases:
  assumes "producer_step config T b q = Inr (evs, q')"
  shows "q' = q \<or> (\<exists>r. q' = q @ [r] \<and> temp_valid r \<and> gravity_valid r \<and> \<not> queue_full (queue_size config) q)"
proof (cases b)
  case (Advertisement md)
  with assms show ?thesis using beacon_callback_cases[of config T _ q evs q']
    by (auto simp: producer_step_def bleak_callback_def split: option.splits sum.splits)
next
  case Simulated
  with assms show ?thesis using beacon_callback_cases[of config T _ q evs q']
    by (auto simp: producer_step_def split: sum.splits)
qed

lemma producer_run_full:
  "queue_full (queue_size config) q \<Longrightarrow> producer_run config T bs q = ([], q, None)"
  by (induction bs) (simp_all add: producer_step_full)

lemma producer_run_bounded:
  assumes "0 < queue_size config"
  shows "int (length q) \<le> queue_size config \<Longrightarrow>
     \<exists>evs q'. producer_run config T bs q = (evs, q', None) \<and> int (length q') \<le> queue_size config"
proof (induction bs arbitrary: q)
  case Nil
  then show ?case by simp
next
  case (Cons b bs)
  obtain evs q1 where s: "producer_step config T b q = Inr (evs, q1)"
    using producer_step_never_raises by blast
  from producer_step_cases[OF s] Cons.prems assms have "int (length q1) \<le> queue_size config"
    by (auto simp: queue_full_def)
  from Cons.IH[OF this] obtain evs' q' where
    "producer_run config T bs q1 = (evs', q', None)" "int (length q') \<le> queue_size config" by blast
  with s show ?case by simp
qed

lemma producer_run_append:
  "producer_run config T (xs @ ys) q =
     (case producer_run config T xs q of
        (e1, q1, None) \<Rightarrow> (case producer_run config T ys q1 of (e2, r) \<Rightarrow> (e1 @ e2, r))
      | (e1, q1, Some e) \<Rightarrow> (e1, q1, Some e))"
proof (induction xs arbitrary: q)
  case Nil
  then show ?case by (simp split: prod.splits)
next
  case (Cons x xs)
  show ?case
  proof (cases "producer_step config T x q")
    case (Inl e)
    then show ?thesis by simp
  next
    case (Inr r)
    then show ?thesis using Cons.IH[of "snd r"]
      by (cases r) (simp split: prod.splits option.splits)
  qed
qed

section \<open>Properties of the consumer\<close>

lemma dispatch_append:
  "dispatch (xs @ ys) cl r w =
     (case dispatch xs cl r w of
        (e1, w1, None) \<Rightarrow> (case dispatch ys cl r w1 of (e2, res) \<Rightarrow> (e1 @ e2, res))
      | (e1, w1, Some e) \<Rightarrow> (e1, w1, Some e))"
proof (induction xs arbitrary: w)
  case Nil
  then show ?case by (simp split: prod.splits)
next
  case (Cons p ps)
  obtain x w' where u: "provider_update p r w = (x, w')" by (cases "provider_update p r w")
  show ?case using Cons.IH[of w'] u
    by (cases x) (auto split: prod.splits option.splits)
qed

lemma dispatch_all:
  assumes "\<forall>p\<in>set ps. \<forall>r w e. fst (provider_update p r w) = Some e \<longrightarrow> is_Exception e"
  shows "\<exists>evs. dispatch ps cl r w = (evs, foldl (\<lambda>w p. snd (provider_update p r w)) w ps, None)
           \<and> filter is_Invoke evs = map (\<lambda>p. Invoke (provider_str p) r) ps"
  using assms
proof (induction ps arbitrary: w)
  case Nil
  then show ?case by simp
next
  case (Cons p ps)
  obtain x w' where u: "provider_update p r w = (x, w')" by (cases "provider_update p r w")
  from Cons.prems have rest: "\<forall>p\<in>set ps. \<forall>r w e. fst (provider_update p r w) = Some e \<longrightarrow> is_Exception e"
    by simp
  from Cons.IH[OF rest, of w'] obtain evs where
    d: "dispatch ps cl r w' = (evs, foldl (\<lambda>w p. snd (provider_update p r w)) w' ps, None)"
    and f: "filter is_Invoke evs = map (\<lambda>p. Invoke (provider_str p) r) ps" by blast
  show ?case
  proof (cases x)
    case None
    with u d f show ?thesis by simp
  next
    case (Some e)
    from Cons.prems have "\<forall>r w e. fst (provider_update p r w) = Some e \<longrightarrow> is_Exception e"
      by simp
    then have "fst (provider_update p r w) = Some e \<longrightarrow> is_Exception e" by blast
    with u Some have "is_Exception e" by simp
    with Some u d f show ?thesis by simp
  qed
qed

lemma dispatch_no_warning: "filter is_QueueIsFull (fst (dispatch ps cl r w)) = []"
proof (induction ps arbitrary: w)
  case Nil
  then show ?case by simp
next
  case (Cons p ps)
  obtain x w' where u: "provider_update p r w = (x, w')" by (cases "provider_update p r w")
  obtain evs w'' y where d: "dispatch ps cl r w' = (evs, w'', y)" by (cases "dispatch ps cl r w'")
  from Cons.IH[of w'] d have "filter is_QueueIsFull evs = []" by simp
  with u d show ?case by (cases x) auto
qed

lemma handle_pitch_queue_nonempty:
  assumes "\<forall>p\<in>set ps. \<forall>r w e. fst (provider_update p r w) = Some e \<longrightarrow> is_Exception e"
  shows "\<exists>evs x. handle_pitch_queue config json ps cl (r # q, w)
              = (evs, q, foldl (\<lambda>w p. snd (provider_update p r w)) w ps, x)
           \<and> filter is_Invoke evs = map (\<lambda>p. Invoke (provider_str p) r) ps
           \<and> (\<forall>e. x = Some e \<longrightarrow> json r = Inl e)"
proof -
  from dispatch_all[OF assms, of cl r w] obtain evs where
    d: "dispatch ps cl r w = (evs, foldl (\<lambda>w p. snd (provider_update p r w)) w ps, None)"
    and f: "filter is_Invoke evs = map (\<lambda>p. Invoke (provider_str p) r) ps" by blast
  show ?thesis
    by (cases "json r") (simp_all add: handle_pitch_queue_def queue_empty_def queue_get_def d f Let_def)
qed

lemma handle_pitch_queue_empty:
  "\<exists>evs. handle_pitch_queue config json ps cl ([], w) = (evs, [], w, None)"
  by (simp add: handle_pitch_queue_def queue_empty_def queue_get_def queue_full_def Let_def)

lemma handle_pitch_queue_raises:
  assumes "\<forall>p\<in>set ps. \<forall>r w e. fst (provider_update p r w) = Some e \<longrightarrow> is_Exception e"
    and "\<forall>r e. json r = Inl e \<longrightarrow> is_Exception e"
    and "handle_pitch_queue config json ps cl (q, w) = (evs, q', w', Some e)"
  shows "is_Exception e"
proof (cases q)
  case Nil
  with assms(3) handle_pitch_queue_empty[of config json ps cl w] show ?thesis by auto
next
  case (Cons r rest)
  with assms(3) handle_pitch_queue_nonempty[OF assms(1), of config json cl r rest w]
  have "json r = Inl e" by auto
  with assms(2) show ?thesis by blast
qed

lemma consumer_round_running:
  assumes "\<forall>p\<in>set ps. \<forall>r w e. fst (provider_update p r w) = Some e \<longrightarrow> is_Exception e"
    and "\<forall>r e. json r = Inl e \<longrightarrow> is_Exception e"
  shows "snd (snd (snd (consumer_round config json ps cl False s))) = Running"
proof -
  obtain q w where s: "s = (q, w)" by (cases s)
  obtain evs q' w' x where h: "handle_pitch_queue config json ps cl (q, w) = (evs, q', w', x)"
    by (cases "handle_pitch_queue config json ps cl (q, w)") auto
  show ?thesis
  proof (cases x)
    case None
    with h s show ?thesis by (simp add: consumer_round_def)
  next
    case (Some e)
    with h handle_pitch_queue_raises[OF assms, of config cl q w evs q' w' e] have "is_Exception e" by simp
    with h s Some show ?thesis by (simp add: consumer_round_def)
  qed
qed

lemma run_queue_consumer_running:
  assumes "\<forall>p\<in>set ps. \<forall>r w e. fst (provider_update p r w) = Some e \<longrightarrow> is_Exception e"
    and "\<forall>r e. json r = Inl e \<longrightarrow> is_Exception e"
  shows "\<forall>a\<in>set sched. \<not> snd a \<Longrightarrow>
     snd (snd (snd (run_queue_consumer config T json ps cl sched s))) = Running"
proof (induction sched arbitrary: s)
  case Nil
  then show ?case by simp
next
  case (Cons a sched)
  obtain bs where a: "a = (bs, False)" using Cons.prems by (cases a) auto
  obtain evs0 q0 x0 where p: "producer_run config T bs (fst s) = (evs0, q0, x0)"
    by (cases "producer_run config T bs (fst s)") auto
  obtain evs1 q1 w1 st where c: "consumer_round config json ps cl False (q0, snd s) = (evs1, q1, w1, st)"
    by (cases "consumer_round config json ps cl False (q0, snd s)") auto
  from consumer_round_running[OF assms, of config cl "(q0, snd s)"] c have st: "st = Running" by simp
  from Cons.prems have "\<forall>a\<in>set sched. \<not> snd a" by simp
  from Cons.IH[OF this, of "(q1, w1)"] a p c st show ?case
    by (auto split: prod.splits)
qed

section \<open>Evaluations on the example instances\<close>

lemma get_decimal_gravity_1035: "get_decimal_gravity 1035 = Inr gravity_1035"
  unfolding gravity_1035_def by code_simp

lemma uuid_to_colors_nonempty: "uuid_to_colors u = Some c \<Longrightarrow> c \<noteq> []"
  by (auto simp: uuid_to_colors_def uuid_to_colors_items_def split: if_splits)

lemma uuid_to_colors_green: "uuid_to_colors ''a495bb20-c5b1-4b44-b512-1370f02d74de'' = Some ''green''"
  by (simp add: uuid_to_colors_def uuid_to_colors_items_def)

lemma uuid_to_colors_simulated: "uuid_to_colors ''a495bb40-c5b1-4b44-b512-1370f02d74df'' = Some ''simulated''"
  by (simp add: uuid_to_colors_def uuid_to_colors_items_def)

lemma uuid_str_green: "uuid_str green_ident = Inr ''a495bb20-c5b1-4b44-b512-1370f02d74de''"
  by (simp add: green_ident_def uuid_str_def hex_of_bytes_def hex_byte_def hex_digit_def py_slice_def Let_def)

lemma example_valid:
  "temp_valid (example_TiltStatus c 70 gravity_1035)" "gravity_valid (example_TiltStatus c 70 gravity_1035)"
  by (simp_all add: example_TiltStatus_def TiltStatus_ranges_def gravity_1035_def)

lemma beacon_callback_green:
  "beacon_callback (example_config 3) example_TiltStatus (green_packet 70) []
     = Inr ([], [example_TiltStatus ''green'' 70 gravity_1035])"
  by (simp add: beacon_callback_def example_config_def green_packet_def queue_full_def
      queue_put_nowait_def uuid_to_colors_green get_decimal_gravity_1035 example_valid Let_def)

lemma producer_step_simulated:
  "\<not> queue_full n q \<Longrightarrow> producer_step (example_config n) example_TiltStatus Simulated q
     = Inr ([], q @ [example_TiltStatus ''simulated'' 70 gravity_1035])"
  by (simp add: producer_step_def fake_packet_eq beacon_callback_def example_config_def
      queue_full_def queue_put_nowait_def uuid_to_colors_simulated get_decimal_gravity_1035
      example_valid Let_def)

section \<open>Invariants of the producer's run\<close>

lemma producer_step_enqueued:
  assumes "producer_step config T b q = Inr (evs, q')"
  shows "q' = q \<or> (\<exists>u c t g. uuid_to_colors u = Some c \<and> temp_valid (T c t g)
                      \<and> gravity_valid (T c t g) \<and> q' = q @ [T c t g])"
proof (cases b)
  case (Advertisement md)
  with assms show ?thesis using beacon_callback_cases[of config T _ q evs q']
    by (auto simp: producer_step_def bleak_callback_def split: option.splits sum.splits) blast+
next
  case Simulated
  with assms show ?thesis using beacon_callback_cases[of config T _ q evs q']
    by (auto simp: producer_step_def split: sum.splits) blast+
qed

lemma producer_run_enqueued:
  "producer_run config T bs q = (evs, q', x) \<Longrightarrow>
     \<exists>new. q' = q @ new
        \<and> (\<forall>r\<in>set new. temp_valid r \<and> gravity_valid r
               \<and> (\<exists>u c t g. uuid_to_colors u = Some c \<and> r = T c t g))"
proof (induction bs arbitrary: q evs q' x)
  case Nil
  then show ?case by simp
next
  case (Cons b bs)
  obtain e1 q1 where s: "producer_step config T b q = Inr (e1, q1)"
    using producer_step_never_raises by blast
  obtain e2 q2 x2 where r: "producer_run config T bs q1 = (e2, q2, x2)"
    by (cases "producer_run config T bs q1") auto
  from Cons.prems s r have q': "q' = q2" by simp
  from Cons.IH[OF r] obtain new where
    n: "q2 = q1 @ new" "\<forall>r\<in>set new. temp_valid r \<and> gravity_valid r
               \<and> (\<exists>u c t g. uuid_to_colors u = Some c \<and> r = T c t g)" by blast
  from producer_step_enqueued[OF s] show ?case
  proof
    assume "q1 = q"
    with n q' show ?thesis by blast
  next
    assume "\<exists>u c t g. uuid_to_colors u = Some c \<and> temp_valid (T c t g)
                      \<and> gravity_valid (T c t g) \<and> q1 = q @ [T c t g]"
    then obtain u c t g where a: "uuid_to_colors u = Some c" "temp_valid (T c t g)"
      "gravity_valid (T c t g)" "q1 = q @ [T c t g]" by blast
    let ?new = "T c t g # new"
    from a n q' have "q' = q @ ?new" by simp
    moreover from a n have "\<forall>r\<in>set ?new. temp_valid r \<and> gravity_valid r
               \<and> (\<exists>u c t g. uuid_to_colors u = Some c \<and> r = T c t g)" by auto
    ultimately show ?thesis by blast
  qed
qed

lemma producer_run_never_raises: "\<exists>evs q'. producer_run config T bs q = (evs, q', None)"
proof (induction bs arbitrary: q)
  case Nil
  then show ?case by simp
next
  case (Cons b bs)
  obtain e1 q1 where s: "producer_step config T b q = Inr (e1, q1)"
    using producer_step_never_raises by blast
  from Cons.IH[of q1] obtain e2 q2 where "producer_run config T bs q1 = (e2, q2, None)" by blast
  with s show ?case by simp
qed

lemma producer_run_stays_full:
  assumes "producer_run config T bs1 q0 = (e1, q, None)" and "queue_full (queue_size config) q"
  shows "producer_run config T (bs1 @ bs2) q0 = (e1, q, None)"
  using assms by (simp add: producer_run_append producer_run_full)

lemma dispatch_single_ok:
  assumes "\<forall>r w. fst (provider_update sink r w) = None"
  shows "\<exists>evs. dispatch [sink] cl r w = (evs, snd (provider_update sink r w), None)
           \<and> filter is_Invoke evs = [Invoke (provider_str sink) r]"
proof -
  from assms have "fst (provider_update sink r w) = None" by blast
  then obtain w' where "provider_update sink r w = (None, w')"
    by (cases "provider_update sink r w") auto
  then show ?thesis by simp
qed

section \<open>The rounds of the consumer loop, and the queue without bound\<close>

lemma run_queue_consumer_round:
  assumes sinks: "\<forall>p\<in>set ps. \<forall>r w e. fst (provider_update p r w) = Some e \<longrightarrow> is_Exception e"
    and js: "\<forall>r e. json r = Inl e \<longrightarrow> is_Exception e"
  shows "\<exists>evs0 q0 evsH q1 w1 x evs2 q2 w2 st.
           producer_run config T bs (fst s) = (evs0, q0, None)
         \<and> handle_pitch_queue config json ps cl (q0, snd s) = (evsH, q1, w1, x)
         \<and> run_queue_consumer config T json ps cl sched (q1, w1) = (evs2, q2, w2, st)
         \<and> run_queue_consumer config T json ps cl ((bs, False) # sched) s
             = (evs0 @ evsH
                  @ (case x of None \<Rightarrow> [] | Some e \<Rightarrow> [Print (ErrorInConsumerLoop e), Sleep 1])
                  @ evs2, q2, w2, st)"
proof -
  obtain evs0 q0 where p: "producer_run config T bs (fst s) = (evs0, q0, None)"
    using producer_run_never_raises by blast
  obtain evsH q1 w1 x where h: "handle_pitch_queue config json ps cl (q0, snd s) = (evsH, q1, w1, x)"
    by (cases "handle_pitch_queue config json ps cl (q0, snd s)") auto
  obtain evs2 q2 w2 st where r: "run_queue_consumer config T json ps cl sched (q1, w1) = (evs2, q2, w2, st)"
    by (cases "run_queue_consumer config T json ps cl sched (q1, w1)") auto
  have c: "consumer_round config json ps cl False (q0, snd s)
      = (evsH @ (case x of None \<Rightarrow> [] | Some e \<Rightarrow> [Print (ErrorInConsumerLoop e), Sleep 1]),
         q1, w1, Running)"
  proof (cases x)
    case None
    with h show ?thesis by (simp add: consumer_round_def)
  next
    case (Some e)
    with h handle_pitch_queue_raises[OF sinks js, of config cl q0 "snd s" evsH q1 w1 e]
    have "is_Exception e" by simp
    with h Some show ?thesis by (simp add: consumer_round_def)
  qed
  have "run_queue_consumer config T json ps cl ((bs, False) # sched) s
             = (evs0 @ evsH
                  @ (case x of None \<Rightarrow> [] | Some e \<Rightarrow> [Print (ErrorInConsumerLoop e), Sleep 1])
                  @ evs2, q2, w2, st)"
    using p c r by simp
  with p h r show ?thesis by blast
qed

lemma run_queue_consumer_drain:
  assumes sinks: "\<forall>p\<in>set ps. \<forall>r w e. fst (provider_update p r w) = Some e \<longrightarrow> is_Exception e"
    and js: "\<forall>r e. json r = Inl e \<longrightarrow> is_Exception e"
  shows "\<exists>evs. run_queue_consumer config T json ps cl (replicate (length rs) ([], False)) (rs @ q, w)
             = (evs, q, foldl (\<lambda>w r. foldl (\<lambda>w p. snd (provider_update p r w)) w ps) w rs, Running)
           \<and> filter is_Invoke evs = concat (map (\<lambda>r. map (\<lambda>p. Invoke (provider_str p) r) ps) rs)"
proof (induction rs arbitrary: w)
  case Nil
  then show ?case by simp
next
  case (Cons r rs)
  let ?w1 = "foldl (\<lambda>w p. snd (provider_update p r w)) w ps"
  from handle_pitch_queue_nonempty[OF sinks, of config json cl r "rs @ q" w] obtain evsH x where
    h: "handle_pitch_queue config json ps cl (r # rs @ q, w) = (evsH, rs @ q, ?w1, x)"
    and f: "filter is_Invoke evsH = map (\<lambda>p. Invoke (provider_str p) r) ps" by blast
  from Cons.IH[of ?w1] obtain evs2 where
    r2: "run_queue_consumer config T json ps cl (replicate (length rs) ([], False)) (rs @ q, ?w1)
          = (evs2, q, foldl (\<lambda>w r. foldl (\<lambda>w p. snd (provider_update p r w)) w ps) ?w1 rs, Running)"
    and f2: "filter is_Invoke evs2 = concat (map (\<lambda>r. map (\<lambda>p. Invoke (provider_str p) r) ps) rs)"
    by blast
  from run_queue_consumer_round[OF sinks js, of config T "[]" "(r # rs @ q, w)" cl
      "replicate (length rs) ([], False)"] h r2
  have "run_queue_consumer config T json ps cl (([], False) # replicate (length rs) ([], False)) (r # rs @ q, w)
      = (evsH @ (case x of None \<Rightarrow> [] | Some e \<Rightarrow> [Print (ErrorInConsumerLoop e), Sleep 1]) @ evs2,
         q, foldl (\<lambda>w r. foldl (\<lambda>w p. snd (provider_update p r w)) w ps) ?w1 rs, Running)"
    by auto
  moreover have "filter is_Invoke (evsH @ (case x of None \<Rightarrow> [] | Some e \<Rightarrow> [Print (ErrorInConsumerLoop e), Sleep 1]) @ evs2)
      = concat (map (\<lambda>r. map (\<lambda>p. Invoke (provider_str p) r) ps) (r # rs))"
    using f f2 by (cases x) simp_all
  ultimately show ?case by simp
qed

lemma dispatch_failure_printed:
  assumes d1: "dispatch pre cl r w = (e1, w1, None)"
    and u: "provider_update p r w1 = (Some e, w1')"
    and ne: "e \<noteq> RateLimitedException" and ex: "is_Exception e"
  shows "\<exists>e2 w2 x. dispatch post cl r w1' = (e2, w2, x)
           \<and> dispatch (pre @ p # post) cl r w
               = (e1 @ Invoke (provider_str p) r # Print (PrintException e) # e2, w2, x)"
proof -
  obtain e2 w2 x where d2: "dispatch post cl r w1' = (e2, w2, x)"
    by (cases "dispatch post cl r w1'") auto
  have "dispatch (p # post) cl r w1 = (Invoke (provider_str p) r # Print (PrintException e) # e2, w2, x)"
    using u ne ex d2 by simp
  with d1 have "dispatch (pre @ p # post) cl r w
      = (e1 @ Invoke (provider_str p) r # Print (PrintException e) # e2, w2, x)"
    by (simp add: dispatch_append)
  with d2 show ?thesis by blast
qed

lemma dispatch_rate_limit_not_printed:
  "Print (PrintException RateLimitedException) \<notin> set (fst (dispatch ps cl r w))"
proof (induction ps arbitrary: w)
  case Nil
  then show ?case by simp
next
  case (Cons p ps)
  obtain x w' where u: "provider_update p r w = (x, w')" by (cases "provider_update p r w")
  obtain evs w'' y where d: "dispatch ps cl r w' = (evs, w'', y)" by (cases "dispatch ps cl r w'")
  from Cons.IH[of w'] d have "Print (PrintException RateLimitedException) \<notin> set evs" by simp
  with u d show ?case by (cases x) auto
qed

lemma beacon_callback_unbounded:
  assumes "queue_size config \<le> 0"
    and "uuid_to_colors (uuid pkt) = Some c" and "get_decimal_gravity (minor pkt) = Inr g"
    and "temp_valid (T c (major pkt) g)" and "gravity_valid (T c (major pkt) g)"
  shows "beacon_callback config T pkt q = Inr ([], q @ [T c (major pkt) g])"
proof -
  have "c \<noteq> []" using assms(2) by (rule uuid_to_colors_nonempty)
  with assms show ?thesis
    by (simp add: beacon_callback_def queue_full_def queue_put_nowait_def Let_def)
qed

lemma producer_run_unbounded:
  assumes "queue_size config \<le> 0"
    and "temp_valid (T ''simulated'' 70 gravity_1035)"
    and "gravity_valid (T ''simulated'' 70 gravity_1035)"
  shows "producer_run config T (replicate n Simulated) q
           = ([], q @ replicate n (T ''simulated'' 70 gravity_1035), None)"
proof (induction n arbitrary: q)
  case 0
  then show ?case by simp
next
  case (Suc n)
  have "beacon_callback config T
          \<lparr>uuid = ''a495bb40-c5b1-4b44-b512-1370f02d74df'', major = 70, minor = 1035, tx_power = None\<rparr> q
        = Inr ([], q @ [T ''simulated'' 70 gravity_1035])"
    using beacon_callback_unbounded[OF assms(1), of
        "\<lparr>uuid = ''a495bb40-c5b1-4b44-b512-1370f02d74df'', major = 70, minor = 1035, tx_power = None\<rparr>"
        "''simulated''" gravity_1035 T q] assms(2,3)
    by (simp add: uuid_to_colors_simulated get_decimal_gravity_1035)
  then have s: "producer_step config T Simulated q = Inr ([], q @ [T ''simulated'' 70 gravity_1035])"
    by (simp add: producer_step_def fake_packet_eq)
  show ?case using s Suc.IH[of "q @ [T ''simulated'' 70 gravity_1035]"]
    by (simp add: replicate_app_Cons_same)
qed

section \<open>The claims about the producer\<close>

text \<open>
  Claim C3. A call of \<open>_beacon_callback\<close> that returns leaves the queue as it was, or
  appends exactly one reading: one built for the colour that the identity table gives for
  the packet's identifier, from the packet's major and the decimal gravity of its minor,
  with both validity flags true. Hence over any sequence of broadcasts every reading
  that the producer adds to the queue was built for a colour of the table and has both
  flags true.
\<close>

theorem beacon_callback_enqueues_only_valid:
  assumes "beacon_callback config T pkt q = Inr (evs, q')"
  shows "(q' = q \<or>
          (\<exists>c g. uuid_to_colors (uuid pkt) = Some c
                 \<and> get_decimal_gravity (minor pkt) = Inr g
                 \<and> temp_valid (T c (major pkt) g) \<and> gravity_valid (T c (major pkt) g)
                 \<and> q' = q @ [T c (major pkt) g]))
       \<and> (\<forall>bs q0 evs0 q1 x. producer_run config T bs q0 = (evs0, q1, x) \<longrightarrow>
             (\<exists>new. q1 = q0 @ new
                \<and> (\<forall>r\<in>set new. temp_valid r \<and> gravity_valid r
                       \<and> (\<exists>u c t g. uuid_to_colors u = Some c \<and> r = T c t g))))"
proof
  from beacon_callback_cases[OF assms]
  show "q' = q \<or>
          (\<exists>c g. uuid_to_colors (uuid pkt) = Some c
                 \<and> get_decimal_gravity (minor pkt) = Inr g
                 \<and> temp_valid (T c (major pkt) g) \<and> gravity_valid (T c (major pkt) g)
                 \<and> q' = q @ [T c (major pkt) g])"
    by blast
next
  show "\<forall>bs q0 evs0 q1 x. producer_run config T bs q0 = (evs0, q1, x) \<longrightarrow>
             (\<exists>new. q1 = q0 @ new
                \<and> (\<forall>r\<in>set new. temp_valid r \<and> gravity_valid r
                       \<and> (\<exists>u c t g. uuid_to_colors u = Some c \<and> r = T c t g)))"
    using producer_run_enqueued by blast
qed

theorem beacon_callback_enqueues_only_valid_witness:
  "beacon_callback (example_config 3) example_TiltStatus (green_packet 70) []
     = Inr ([], [example_TiltStatus ''green'' 70 gravity_1035])
   \<and> uuid_to_colors (uuid (green_packet 70)) = Some ''green''
   \<and> temp_valid (example_TiltStatus ''green'' 70 gravity_1035)
   \<and> gravity_valid (example_TiltStatus ''green'' 70 gravity_1035)"
  using beacon_callback_enqueues_only_valid [OF beacon_callback_green] beacon_callback_green
  by (auto simp: green_packet_def uuid_to_colors_green get_decimal_gravity_1035)

text \<open>
  Claim C9. When the queue is full at the call, \<open>_beacon_callback\<close> returns at once:
  the queue is unchanged and nothing is printed, whatever the packet and whatever the
  constructor of the reading, so neither the lookup of the identifier nor the
  construction of a reading nor a validity check has any effect on the outcome.
\<close>

theorem beacon_callback_returns_first_when_full:
  "queue_full (queue_size config) q \<Longrightarrow> beacon_callback config T pkt q = Inr ([], q)"
  by (simp add: beacon_callback_def)

theorem beacon_callback_returns_first_when_full_witness:
  "queue_full (queue_size (example_config 1)) [example_TiltStatus ''green'' 70 gravity_1035]
   \<and> beacon_callback (example_config 1) example_TiltStatus (green_packet 250)
        [example_TiltStatus ''green'' 70 gravity_1035]
      = Inr ([], [example_TiltStatus ''green'' 70 gravity_1035])
   \<and> beacon_callback (example_config 2) example_TiltStatus (green_packet 250)
        [example_TiltStatus ''green'' 70 gravity_1035]
      = Inr ([Print (IgnoringInvalidTemperature 250)], [example_TiltStatus ''green'' 70 gravity_1035])"
  using beacon_callback_returns_first_when_full
    [of "example_config 1" "[example_TiltStatus ''green'' 70 gravity_1035]"
        example_TiltStatus "green_packet 250"]
  by (simp add: queue_full_def example_config_def beacon_callback_def green_packet_def
      uuid_to_colors_green get_decimal_gravity_1035 example_TiltStatus_def TiltStatus_ranges_def Let_def)

text \<open>
  Claim C2, as stated, fails for a configured queue size of zero: the queue of the
  standard library is then without bound, and after one accepted broadcast it holds
  more than the configured size.
\<close>

theorem ingest_queue_unbounded_counterexample:
  "producer_run (example_config 0) example_TiltStatus [Simulated] []
     = ([], [example_TiltStatus ''simulated'' 70 gravity_1035], None)
   \<and> \<not> int (length [example_TiltStatus ''simulated'' 70 gravity_1035])
         \<le> queue_size (example_config 0)"
  by (simp add: producer_step_simulated queue_full_def) (simp add: example_config_def)

text \<open>
  Claim C2, amended. For every sequence of broadcasts the producer raises nothing, with
  any configuration. When the configured queue size is positive and the queue starts
  within it, the queue stays within it; and when the queue is at that size, every
  incoming reading is dropped: the queue is unchanged and nothing is printed. When the
  configured queue size is zero or less, nothing is dropped: a packet with a known
  identifier and a valid reading is appended whatever the length of the queue, and
  \<open>n\<close> rounds of the simulator with a valid reading make the queue longer by \<open>n\<close>. The
  producer's result is computed without any step of the consumer, so it waits for none.
\<close>

theorem ingest_queue_bounded:
  "(\<exists>evs q'. producer_run config T bs q = (evs, q', None)
     \<and> (0 < queue_size config \<and> int (length q) \<le> queue_size config \<longrightarrow>
          int (length q') \<le> queue_size config
          \<and> (int (length q) = queue_size config \<longrightarrow> q' = q \<and> evs = [])))
   \<and> (queue_size config \<le> 0 \<longrightarrow>
        (\<forall>pkt c g. uuid_to_colors (uuid pkt) = Some c \<and> get_decimal_gravity (minor pkt) = Inr g
            \<and> temp_valid (T c (major pkt) g) \<and> gravity_valid (T c (major pkt) g)
          \<longrightarrow> beacon_callback config T pkt q = Inr ([], q @ [T c (major pkt) g]))
      \<and> (\<forall>n. temp_valid (T ''simulated'' 70 gravity_1035)
            \<and> gravity_valid (T ''simulated'' 70 gravity_1035)
          \<longrightarrow> producer_run config T (replicate n Simulated) q
                = ([], q @ replicate n (T ''simulated'' 70 gravity_1035), None)))"
proof (intro conjI impI allI)
  obtain evs q' where r: "producer_run config T bs q = (evs, q', None)"
    using producer_run_never_raises by blast
  have "0 < queue_size config \<and> int (length q) \<le> queue_size config \<longrightarrow>
          int (length q') \<le> queue_size config
          \<and> (int (length q) = queue_size config \<longrightarrow> q' = q \<and> evs = [])"
  proof (intro impI conjI)
    assume a: "0 < queue_size config \<and> int (length q) \<le> queue_size config"
    then have pos: "0 < queue_size config" and le: "int (length q) \<le> queue_size config"
      by simp_all
    from producer_run_bounded[OF pos le, of T bs] r
    show "int (length q') \<le> queue_size config" by auto
  next
    assume a: "0 < queue_size config \<and> int (length q) \<le> queue_size config"
      and "int (length q) = queue_size config"
    then have "queue_full (queue_size config) q" by (simp add: queue_full_def)
    from producer_run_full[OF this, of T bs] r show "q' = q" by simp
  next
    assume a: "0 < queue_size config \<and> int (length q) \<le> queue_size config"
      and "int (length q) = queue_size config"
    then have "queue_full (queue_size config) q" by (simp add: queue_full_def)
    from producer_run_full[OF this, of T bs] r show "evs = []" by simp
  qed
  with r show "\<exists>evs q'. producer_run config T bs q = (evs, q', None)
     \<and> (0 < queue_size config \<and> int (length q) \<le> queue_size config \<longrightarrow>
          int (length q') \<le> queue_size config
          \<and> (int (length q) = queue_size config \<longrightarrow> q' = q \<and> evs = []))"
    by blast
next
  fix pkt :: packet and c g
  assume "queue_size config \<le> 0"
    and "uuid_to_colors (uuid pkt) = Some c \<and> get_decimal_gravity (minor pkt) = Inr g
            \<and> temp_valid (T c (major pkt) g) \<and> gravity_valid (T c (major pkt) g)"
  then show "beacon_callback config T pkt q = Inr ([], q @ [T c (major pkt) g])"
    using beacon_callback_unbounded[of config pkt c g T q] by simp
next
  fix n
  assume "queue_size config \<le> 0"
    and "temp_valid (T ''simulated'' 70 gravity_1035)
            \<and> gravity_valid (T ''simulated'' 70 gravity_1035)"
  then show "producer_run config T (replicate n Simulated) q
                = ([], q @ replicate n (T ''simulated'' 70 gravity_1035), None)"
    using producer_run_unbounded[of config T n q] by simp
qed

theorem ingest_queue_bounded_witness:
  "producer_run (example_config 1) example_TiltStatus [Simulated, Simulated] []
      = ([], [example_TiltStatus ''simulated'' 70 gravity_1035], None)
   \<and> int (length [example_TiltStatus ''simulated'' 70 gravity_1035]) \<le> queue_size (example_config 1)
   \<and> producer_run (example_config (- 1)) example_TiltStatus (replicate 3 Simulated) []
      = ([], [example_TiltStatus ''simulated'' 70 gravity_1035,
              example_TiltStatus ''simulated'' 70 gravity_1035,
              example_TiltStatus ''simulated'' 70 gravity_1035], None)"
proof -
  have c: "queue_full (queue_size (example_config 1)) [example_TiltStatus ''simulated'' 70 gravity_1035]"
    by (simp add: example_config_def queue_full_def)
  have neg: "queue_size (example_config (- 1)) \<le> 0"
    by (simp add: example_config_def)
  have three: "replicate 3 x = [x, x, x]" for x :: tilt_status
    by (simp add: numeral_3_eq_3)
  from ingest_queue_bounded [of "example_config 1" example_TiltStatus "[Simulated, Simulated]" "[]"]
    ingest_queue_bounded [of "example_config (- 1)" example_TiltStatus "[]" "[]"] neg
  show ?thesis
    by (simp add: producer_step_simulated queue_full_def producer_step_full[OF c] example_valid three)
       (simp add: example_config_def)
qed

section \<open>The claims about the consumer\<close>

text \<open>
  Claim C1. Let every exception that a provider's \<open>update\<close> raises, and every one that
  \<open>json\<close> raises, derive from \<open>Exception\<close>. Then the cycle that removes a reading calls
  \<open>update\<close> of every enabled provider with that reading, in the order of the list, and
  leaves the state that these calls produce one after the other. When the \<open>update\<close> of
  one provider raises an exception other than the rate-limit one, the loop prints the
  exception and goes on with the providers after it. The consumer loop is still
  running after any schedule in which the time budget has not expired, whatever
  arrives and whatever the providers raise. Each of its rounds is the cycle of
  \<open>_handle_pitch_queue\<close> on the queue that the producer has left, followed, when that
  cycle raised, by the line about the error and a sleep of one second, and the loop goes
  on from the queue and the state that the cycle leaves. So with \<open>n\<close> readings queued and
  no arrival, \<open>n\<close> rounds call every provider with each of the readings, reading after
  reading in the order of the queue, and leave the rest of the queue.
\<close>

theorem dispatch_isolates_failures:
  fixes ps :: "'w provider list"
  assumes sinks: "\<forall>p\<in>set ps. \<forall>r w e. fst (provider_update p r w) = Some e \<longrightarrow> is_Exception e"
    and js: "\<forall>r e. json r = Inl e \<longrightarrow> is_Exception e"
  shows "(\<exists>evs x. handle_pitch_queue config json ps cl (r # q, w)
              = (evs, q, foldl (\<lambda>w p. snd (provider_update p r w)) w ps, x)
            \<and> filter is_Invoke evs = map (\<lambda>p. Invoke (provider_str p) r) ps)
       \<and> (\<forall>pre p post e1 w1 e w1'.
            ps = pre @ p # post \<and> dispatch pre cl r w = (e1, w1, None)
            \<and> provider_update p r w1 = (Some e, w1') \<and> e \<noteq> RateLimitedException
            \<longrightarrow> (\<exists>e2 w2. dispatch post cl r w1' = (e2, w2, None)
                   \<and> dispatch ps cl r w
                      = (e1 @ Invoke (provider_str p) r # Print (PrintException e) # e2, w2, None)))
       \<and> (\<forall>sched s. (\<forall>a\<in>set sched. \<not> snd a)
            \<longrightarrow> snd (snd (snd (run_queue_consumer config T json ps cl sched s))) = Running)
       \<and> (\<forall>bs sched s. \<exists>evs0 q0 evsH q1 w1 x evs2 q2 w2 st.
             producer_run config T bs (fst s) = (evs0, q0, None)
           \<and> handle_pitch_queue config json ps cl (q0, snd s) = (evsH, q1, w1, x)
           \<and> run_queue_consumer config T json ps cl sched (q1, w1) = (evs2, q2, w2, st)
           \<and> run_queue_consumer config T json ps cl ((bs, False) # sched) s
               = (evs0 @ evsH
                    @ (case x of None \<Rightarrow> [] | Some e \<Rightarrow> [Print (ErrorInConsumerLoop e), Sleep 1])
                    @ evs2, q2, w2, st))
       \<and> (\<forall>rs q' w'. \<exists>evs.
             run_queue_consumer config T json ps cl (replicate (length rs) ([], False)) (rs @ q', w')
               = (evs, q', foldl (\<lambda>w r. foldl (\<lambda>w p. snd (provider_update p r w)) w ps) w' rs,
                  Running)
           \<and> filter is_Invoke evs
               = concat (map (\<lambda>r. map (\<lambda>p. Invoke (provider_str p) r) ps) rs))"
proof (intro conjI allI impI)
  from handle_pitch_queue_nonempty[OF sinks, of config json cl r q w]
  show "\<exists>evs x. handle_pitch_queue config json ps cl (r # q, w)
              = (evs, q, foldl (\<lambda>w p. snd (provider_update p r w)) w ps, x)
            \<and> filter is_Invoke evs = map (\<lambda>p. Invoke (provider_str p) r) ps"
    by blast
next
  fix pre p post e1 w1 e w1'
  assume a: "ps = pre @ p # post \<and> dispatch pre cl r w = (e1, w1, None)
            \<and> provider_update p r w1 = (Some e, w1') \<and> e \<noteq> RateLimitedException"
  then have ps: "ps = pre @ p # post" and d1: "dispatch pre cl r w = (e1, w1, None)"
    and u: "provider_update p r w1 = (Some e, w1')" and ne: "e \<noteq> RateLimitedException"
    by simp_all
  from sinks ps have "\<forall>r w e. fst (provider_update p r w) = Some e \<longrightarrow> is_Exception e"
    by simp
  then have "fst (provider_update p r w1) = Some e \<longrightarrow> is_Exception e" by blast
  with u have ex: "is_Exception e" by simp
  from sinks have "\<forall>p\<in>set post. \<forall>r w e. fst (provider_update p r w) = Some e \<longrightarrow> is_Exception e"
    unfolding ps by (simp add: ball_Un)
  from dispatch_all[OF this, of cl r w1'] obtain e2 w2 where
    d2: "dispatch post cl r w1' = (e2, w2, None)" by blast
  have "dispatch (p # post) cl r w1 = (Invoke (provider_str p) r # Print (PrintException e) # e2, w2, None)"
    using u ne ex d2 by simp
  with d1 have "dispatch ps cl r w
      = (e1 @ Invoke (provider_str p) r # Print (PrintException e) # e2, w2, None)"
    unfolding ps by (simp add: dispatch_append)
  with d2 show "\<exists>e2 w2. dispatch post cl r w1' = (e2, w2, None)
                   \<and> dispatch ps cl r w
                      = (e1 @ Invoke (provider_str p) r # Print (PrintException e) # e2, w2, None)"
    by blast
next
  fix sched :: "(broadcast list \<times> bool) list" and s
  assume "\<forall>a\<in>set sched. \<not> snd a"
  with run_queue_consumer_running[OF sinks js, of sched config T cl s]
  show "snd (snd (snd (run_queue_consumer config T json ps cl sched s))) = Running"
    by blast
next
  fix bs sched and s :: "tilt_status list \<times> 'w"
  from run_queue_consumer_round[OF sinks js, of config T bs s cl sched]
  show "\<exists>evs0 q0 evsH q1 w1 x evs2 q2 w2 st.
             producer_run config T bs (fst s) = (evs0, q0, None)
           \<and> handle_pitch_queue config json ps cl (q0, snd s) = (evsH, q1, w1, x)
           \<and> run_queue_consumer config T json ps cl sched (q1, w1) = (evs2, q2, w2, st)
           \<and> run_queue_consumer config T json ps cl ((bs, False) # sched) s
               = (evs0 @ evsH
                    @ (case x of None \<Rightarrow> [] | Some e \<Rightarrow> [Print (ErrorInConsumerLoop e), Sleep 1])
                    @ evs2, q2, w2, st)" .
next
  fix rs q' and w' :: 'w
  from run_queue_consumer_drain[OF sinks js, of config T cl rs q' w']
  show "\<exists>evs.
             run_queue_consumer config T json ps cl (replicate (length rs) ([], False)) (rs @ q', w')
               = (evs, q', foldl (\<lambda>w r. foldl (\<lambda>w p. snd (provider_update p r w)) w ps) w' rs,
                  Running)
           \<and> filter is_Invoke evs
               = concat (map (\<lambda>r. map (\<lambda>p. Invoke (provider_str p) r) ps) rs)" .
qed

theorem dispatch_isolates_failures_witness:
  "handle_pitch_queue (example_config 3) example_json
      [raising_sink ''first'' (OtherException ''boom''), counting_sink ''second''] False
      ([example_TiltStatus ''green'' 70 gravity_1035], 0)
     = ([Invoke ''first'' (example_TiltStatus ''green'' 70 gravity_1035),
         Print (PrintException (OtherException ''boom'')),
         Invoke ''second'' (example_TiltStatus ''green'' 70 gravity_1035)], [], 1, None)
   \<and> run_queue_consumer (example_config 3) example_TiltStatus example_json
        [raising_sink ''first'' (OtherException ''boom''), counting_sink ''second''] False
        [([Simulated], False), ([], False), ([Simulated, Simulated], False)] ([], 0)
     = ([Invoke ''first'' (example_TiltStatus ''simulated'' 70 gravity_1035),
         Print (PrintException (OtherException ''boom'')),
         Invoke ''second'' (example_TiltStatus ''simulated'' 70 gravity_1035),
         Sleep 1,
         Invoke ''first'' (example_TiltStatus ''simulated'' 70 gravity_1035),
         Print (PrintException (OtherException ''boom'')),
         Invoke ''second'' (example_TiltStatus ''simulated'' 70 gravity_1035)],
        [example_TiltStatus ''simulated'' 70 gravity_1035], 2, Running)
   \<and> run_queue_consumer (example_config 3) example_TiltStatus example_json
        [raising_sink ''first'' (OtherException ''boom''), counting_sink ''second''] False
        (replicate 2 ([], False))
        ([example_TiltStatus ''green'' 70 gravity_1035,
          example_TiltStatus ''simulated'' 70 gravity_1035], 0)
     = ([Invoke ''first'' (example_TiltStatus ''green'' 70 gravity_1035),
         Print (PrintException (OtherException ''boom'')),
         Invoke ''second'' (example_TiltStatus ''green'' 70 gravity_1035),
         Invoke ''first'' (example_TiltStatus ''simulated'' 70 gravity_1035),
         Print (PrintException (OtherException ''boom'')),
         Invoke ''second'' (example_TiltStatus ''simulated'' 70 gravity_1035)],
        [], 2, Running)"
proof -
  have sinks: "\<forall>p\<in>set [raising_sink ''first'' (OtherException ''boom''), counting_sink ''second''].
      \<forall>r w e. fst (provider_update p r w) = Some e \<longrightarrow> is_Exception e"
    by (simp add: raising_sink_def counting_sink_def)
  have js: "\<forall>r e. example_json r = Inl e \<longrightarrow> is_Exception e"
    by (simp add: example_json_def)
  have cfg: "queue_size (example_config 3) = 3" "queue_empty_sleep_seconds (example_config 3) = 1"
    by (simp_all add: example_config_def)
  have two: "replicate 2 ([] :: broadcast list, False) = [([], False), ([], False)]"
    by (simp add: numeral_2_eq_2)
  from dispatch_isolates_failures [OF sinks js, of "example_config 3" False
      "example_TiltStatus ''green'' 70 gravity_1035" "[]" 0 example_TiltStatus]
  show ?thesis
    by (simp add: two cfg producer_step_simulated consumer_round_def handle_pitch_queue_def
        queue_empty_def queue_full_def queue_get_def raising_sink_def counting_sink_def Let_def)
qed

text \<open>
  Claim C5. Let every exception that a provider's \<open>update\<close> raises derive from
  \<open>Exception\<close>, and let the \<open>update\<close> of one provider raise the rate-limit exception when
  its turn comes. Then the loop prints the line about skipping for that provider, not
  the exception, and goes on with the providers after it to the end of the list; and a
  cycle for any later reading, from any state, calls every provider of the list again,
  this one included. Any other exception raised at the same place is handled
  differently: the loop prints that exception and no line about skipping. The
  rate-limit exception itself is never printed in that way.
\<close>

theorem rate_limit_is_skipped:
  fixes ps :: "'w provider list"
  assumes sinks: "\<forall>p\<in>set ps. \<forall>r w e. fst (provider_update p r w) = Some e \<longrightarrow> is_Exception e"
    and ps: "ps = pre @ p # post"
    and d1: "dispatch pre cl r w = (e1, w1, None)"
    and u: "provider_update p r w1 = (Some RateLimitedException, w1')"
  shows "(\<exists>e2 w2. dispatch post cl r w1' = (e2, w2, None)
            \<and> dispatch ps cl r w
               = (e1 @ Invoke (provider_str p) r
                     # Print (SkippingRateLimited (provider_str p) (color r)) # e2, w2, None))
       \<and> (\<forall>r' w'. \<exists>evs' w''. dispatch ps cl r' w' = (evs', w'', None)
              \<and> filter is_Invoke evs' = map (\<lambda>p. Invoke (provider_str p) r') ps
              \<and> Invoke (provider_str p) r' \<in> set evs')
       \<and> (\<forall>p' e w1''. provider_update p' r w1 = (Some e, w1'')
              \<and> e \<noteq> RateLimitedException \<and> is_Exception e
            \<longrightarrow> (\<exists>e2 w2 x. dispatch post cl r w1'' = (e2, w2, x)
                   \<and> dispatch (pre @ p' # post) cl r w
                       = (e1 @ Invoke (provider_str p') r # Print (PrintException e) # e2, w2, x)))
       \<and> Print (PrintException RateLimitedException) \<notin> set (fst (dispatch ps cl r w))"
proof (intro conjI allI impI)
  from sinks have "\<forall>p\<in>set post. \<forall>r w e. fst (provider_update p r w) = Some e \<longrightarrow> is_Exception e"
    unfolding ps by (simp add: ball_Un)
  from dispatch_all[OF this, of cl r w1'] obtain e2 w2 where
    d2: "dispatch post cl r w1' = (e2, w2, None)" by blast
  have "dispatch (p # post) cl r w1
      = (Invoke (provider_str p) r # Print (SkippingRateLimited (provider_str p) (color r)) # e2, w2, None)"
    using u d2 by simp
  with d1 have "dispatch ps cl r w
      = (e1 @ Invoke (provider_str p) r # Print (SkippingRateLimited (provider_str p) (color r)) # e2, w2, None)"
    unfolding ps by (simp add: dispatch_append)
  with d2 show "\<exists>e2 w2. dispatch post cl r w1' = (e2, w2, None)
            \<and> dispatch ps cl r w
               = (e1 @ Invoke (provider_str p) r
                     # Print (SkippingRateLimited (provider_str p) (color r)) # e2, w2, None)"
    by blast
next
  fix r' w'
  from dispatch_all[OF sinks, of cl r' w'] obtain evs' where
    d: "dispatch ps cl r' w' = (evs', foldl (\<lambda>w p. snd (provider_update p r' w)) w' ps, None)"
    and f: "filter is_Invoke evs' = map (\<lambda>p. Invoke (provider_str p) r') ps" by blast
  have "Invoke (provider_str p) r' \<in> set (map (\<lambda>p. Invoke (provider_str p) r') ps)"
    unfolding ps by simp
  with f have "Invoke (provider_str p) r' \<in> set (filter is_Invoke evs')" by simp
  then have "Invoke (provider_str p) r' \<in> set evs'" by simp
  with d f show "\<exists>evs' w''. dispatch ps cl r' w' = (evs', w'', None)
              \<and> filter is_Invoke evs' = map (\<lambda>p. Invoke (provider_str p) r') ps
              \<and> Invoke (provider_str p) r' \<in> set evs'"
    by blast
next
  fix p' :: "'w provider" and e w1''
  assume "provider_update p' r w1 = (Some e, w1'')
              \<and> e \<noteq> RateLimitedException \<and> is_Exception e"
  then have "provider_update p' r w1 = (Some e, w1'')" "e \<noteq> RateLimitedException" "is_Exception e"
    by simp_all
  from dispatch_failure_printed[OF d1 this]
  show "\<exists>e2 w2 x. dispatch post cl r w1'' = (e2, w2, x)
                   \<and> dispatch (pre @ p' # post) cl r w
                       = (e1 @ Invoke (provider_str p') r # Print (PrintException e) # e2, w2, x)" .
next
  show "Print (PrintException RateLimitedException) \<notin> set (fst (dispatch ps cl r w))"
    by (rule dispatch_rate_limit_not_printed)
qed

theorem rate_limit_is_skipped_witness:
  "dispatch [counting_sink ''a'', raising_sink ''b'' RateLimitedException, counting_sink ''c''] False
      (example_TiltStatus ''green'' 70 gravity_1035) 0
     = ([Invoke ''a'' (example_TiltStatus ''green'' 70 gravity_1035),
         Invoke ''b'' (example_TiltStatus ''green'' 70 gravity_1035),
         Print (SkippingRateLimited ''b'' ''green''),
         Invoke ''c'' (example_TiltStatus ''green'' 70 gravity_1035)], 2, None)
   \<and> Invoke ''b'' (example_TiltStatus ''simulated'' 70 gravity_1035)
       \<in> set (fst (dispatch [counting_sink ''a'', raising_sink ''b'' RateLimitedException,
                             counting_sink ''c''] False
                     (example_TiltStatus ''simulated'' 70 gravity_1035) 2))
   \<and> dispatch [counting_sink ''a'', raising_sink ''b'' (OtherException ''boom''),
                counting_sink ''c''] False
      (example_TiltStatus ''green'' 70 gravity_1035) 0
     = ([Invoke ''a'' (example_TiltStatus ''green'' 70 gravity_1035),
         Invoke ''b'' (example_TiltStatus ''green'' 70 gravity_1035),
         Print (PrintException (OtherException ''boom'')),
         Invoke ''c'' (example_TiltStatus ''green'' 70 gravity_1035)], 2, None)"
proof -
  let ?ps = "[counting_sink ''a'', raising_sink ''b'' RateLimitedException, counting_sink ''c'']"
  let ?r = "example_TiltStatus ''green'' 70 gravity_1035"
  have sinks: "\<forall>p\<in>set ?ps. \<forall>r w e. fst (provider_update p r w) = Some e \<longrightarrow> is_Exception e"
    by (simp add: raising_sink_def counting_sink_def)
  have ps: "?ps = [counting_sink ''a''] @ raising_sink ''b'' RateLimitedException # [counting_sink ''c'']"
    by simp
  have d1: "dispatch [counting_sink ''a''] False ?r 0 = ([Invoke ''a'' ?r], 1, None)"
    by (simp add: counting_sink_def)
  have u: "provider_update (raising_sink ''b'' RateLimitedException) ?r 1 = (Some RateLimitedException, 1)"
    by (simp add: raising_sink_def)
  from rate_limit_is_skipped [OF sinks ps d1 u]
  show ?thesis
    by (auto simp: raising_sink_def counting_sink_def example_TiltStatus_def TiltStatus_ranges_def)
qed

text \<open>
  Claim C8, as stated, fails: with a queue size of one, the single insert before the
  removal found the queue empty, not at capacity, and succeeded; the cycle that
  follows prints the warning all the same, since the queue is full when the cycle
  looks at it.
\<close>

theorem warning_without_full_insert_counterexample:
  "\<not> queue_full (queue_size (example_config 1)) ([] :: tilt_status list)
   \<and> producer_run (example_config 1) example_TiltStatus [Simulated] []
       = ([], [example_TiltStatus ''simulated'' 70 gravity_1035], None)
   \<and> fst (handle_pitch_queue (example_config 1) example_json [counting_sink ''a''] False
            ([example_TiltStatus ''simulated'' 70 gravity_1035], 0))
       = [Print (QueueIsFull 1), Invoke ''a'' (example_TiltStatus ''simulated'' 70 gravity_1035)]"
  by (simp add: producer_step_simulated handle_pitch_queue_def queue_empty_def queue_full_def
      queue_get_def counting_sink_def Let_def)
     (simp add: example_config_def)

text \<open>
  Claim C8, amended. A cycle prints the warning, once and with the length of the
  queue, exactly when the queue is full at the moment the cycle tests it, before the
  removal. That is the case in particular whenever the queue had reached its capacity
  during the broadcasts before: from then on every broadcast leaves it as it is. Apart
  from the printed line the cycle is the one of a queue that is never full: same
  queue, same state of the providers, same other events, same outcome.
\<close>

theorem handle_pitch_queue_warning:
  "\<exists>evs q' w' x. handle_pitch_queue config json ps cl (q, w) = (evs, q', w', x)
     \<and> filter is_QueueIsFull evs
         = (if queue_full (queue_size config) q then [Print (QueueIsFull (length q))] else [])
     \<and> handle_pitch_queue (config\<lparr>queue_size := 0\<rparr>) json ps cl (q, w)
         = (filter (\<lambda>e. \<not> is_QueueIsFull e) evs, q', w', x)
     \<and> (\<forall>T q0 bs1 bs2 e1.
           producer_run config T bs1 q0 = (e1, q, None) \<and> queue_full (queue_size config) q
           \<longrightarrow> producer_run config T (bs1 @ bs2) q0 = (e1, q, None))"
proof -
  have stay: "\<forall>T q0 bs1 bs2 e1.
           producer_run config T bs1 q0 = (e1, q, None) \<and> queue_full (queue_size config) q
           \<longrightarrow> producer_run config T (bs1 @ bs2) q0 = (e1, q, None)"
    using producer_run_stays_full by blast
  show ?thesis
  proof (cases q)
    case Nil
    with stay show ?thesis
      by (simp add: handle_pitch_queue_def queue_empty_def queue_get_def queue_full_def Let_def)
  next
    case (Cons r rest)
    obtain evs w' x where d: "dispatch ps cl r w = (evs, w', x)"
      by (cases "dispatch ps cl r w") auto
    from dispatch_no_warning[of ps cl r w] d have nw: "filter is_QueueIsFull evs = []" by simp
    then have nw': "filter (\<lambda>e. \<not> is_QueueIsFull e) evs = evs"
      by (simp add: filter_empty_conv filter_id_conv)
    have "\<exists>evs q' w' x. handle_pitch_queue config json ps cl (q, w) = (evs, q', w', x)
       \<and> filter is_QueueIsFull evs
           = (if queue_full (queue_size config) q then [Print (QueueIsFull (length q))] else [])
       \<and> handle_pitch_queue (config\<lparr>queue_size := 0\<rparr>) json ps cl (q, w)
           = (filter (\<lambda>e. \<not> is_QueueIsFull e) evs, q', w', x)"
      using Cons d nw nw'
      by (cases x; cases "json r")
         (simp_all add: handle_pitch_queue_def queue_empty_def queue_get_def queue_full_def Let_def)
    with stay show ?thesis by blast
  qed
qed

theorem handle_pitch_queue_warning_witness:
  "handle_pitch_queue (example_config 1) example_json [counting_sink ''a''] False
      ([example_TiltStatus ''green'' 70 gravity_1035], 0)
     = ([Print (QueueIsFull 1), Invoke ''a'' (example_TiltStatus ''green'' 70 gravity_1035)],
        [], 1, None)
   \<and> handle_pitch_queue (example_config 2) example_json [counting_sink ''a''] False
      ([example_TiltStatus ''green'' 70 gravity_1035], 0)
     = ([Invoke ''a'' (example_TiltStatus ''green'' 70 gravity_1035)], [], 1, None)"
  using handle_pitch_queue_warning [of "example_config 1" example_json "[counting_sink ''a'']" False
      "[example_TiltStatus ''green'' 70 gravity_1035]" 0]
  by (simp add: handle_pitch_queue_def example_config_def queue_empty_def queue_full_def
      queue_get_def counting_sink_def Let_def)

text \<open>
  Claim C7, as stated, fails: the bytes \<open>04 0B\<close> are the minor 1035, not 1000, and
  \<open>1035 * .001\<close> is not the double 1.
\<close>

theorem scenario_counterexample:
  "parse ([0x02, 0x15] @ green_ident @ [0x00, 0x46, 0x04, 0x0B, 0xb8])
     = Inr (Some \<lparr>uuid = ''a495bb20-c5b1-4b44-b512-1370f02d74de'', major = 70, minor = 1035,
                  tx_power = Some (- 72)\<rparr>)
   \<and> parse ([0x02, 0x15] @ green_ident @ [0x00, 0x46, 0x04, 0x0B, 0xb8])
     \<noteq> Inr (Some \<lparr>uuid = ''a495bb20-c5b1-4b44-b512-1370f02d74de'', major = 70, minor = 1000,
                  tx_power = Some (- 72)\<rparr>)
   \<and> get_decimal_gravity 1035 \<noteq> Inr 1"
proof -
  have "build_payload green_ident 70 1035 0xb8 = [0x02, 0x15] @ green_ident @ [0x00, 0x46, 0x04, 0x0B, 0xb8]"
    by (simp add: build_payload_def)
  with parse_build [OF uuid_str_green, of 70 1035 "0xb8" "[]"]
  have "parse ([0x02, 0x15] @ green_ident @ [0x00, 0x46, 0x04, 0x0B, 0xb8])
     = Inr (Some \<lparr>uuid = ''a495bb20-c5b1-4b44-b512-1370f02d74de'', major = 70, minor = 1035,
                  tx_power = Some (- 72)\<rparr>)"
    by simp
  then show ?thesis by (simp add: get_decimal_gravity_1035 gravity_1035_def)
qed

text \<open>
  Claim C7, amended. The payload \<open>02 15\<close>, 16 bytes of a known identifier,
  \<open>00 46 04 0B b8\<close> and any further bytes decodes to major 70, minor 1035 and
  transmit power -72. The decimal gravity is the double \<open>1035 * .001\<close>, which is the
  double nearest to 1.035. When the reading built for the identifier's colour from 70
  and that gravity has both validity flags true, the broadcast puts exactly this
  reading into the empty queue; and with one enabled provider whose \<open>update\<close> always
  returns, the cycle that follows empties the queue and calls that \<open>update\<close> exactly once,
  with this reading.
\<close>

theorem scenario_known_identifier:
  assumes id: "uuid_str ident = Inr u" and known: "uuid_to_colors u = Some c"
    and valid: "temp_valid (T c 70 gravity_1035)" "gravity_valid (T c 70 gravity_1035)"
    and ok: "\<forall>r w. fst (provider_update sink r w) = None"
  shows "parse ([0x02, 0x15] @ ident @ [0x00, 0x46, 0x04, 0x0B, 0xb8] @ rest)
           = Inr (Some \<lparr>uuid = u, major = 70, minor = 1035, tx_power = Some (- 72)\<rparr>)
       \<and> get_decimal_gravity 1035 = Inr gravity_1035
       \<and> bleak_callback config T
            [APPLE_MANUFACTURER_ID \<mapsto> [0x02, 0x15] @ ident @ [0x00, 0x46, 0x04, 0x0B, 0xb8] @ rest] []
           = Inr ([], [T c 70 gravity_1035])
       \<and> (\<exists>evs x. handle_pitch_queue config json [sink] cl ([T c 70 gravity_1035], w)
                     = (evs, [], snd (provider_update sink (T c 70 gravity_1035) w), x)
                 \<and> filter is_Invoke evs = [Invoke (provider_str sink) (T c 70 gravity_1035)])"
proof -
  let ?d = "[0x02, 0x15] @ ident @ [0x00, 0x46, 0x04, 0x0B, 0xb8] @ rest"
  let ?r = "T c 70 gravity_1035"
  have "build_payload ident 70 1035 0xb8 @ rest = ?d"
    by (simp add: build_payload_def)
  with parse_build [OF id, of 70 1035 "0xb8" rest]
  have p: "parse ?d = Inr (Some \<lparr>uuid = u, major = 70, minor = 1035, tx_power = Some (- 72)\<rparr>)"
    by simp
  have ne: "c \<noteq> []" using known by (rule uuid_to_colors_nonempty)
  have cb: "beacon_callback config T \<lparr>uuid = u, major = 70, minor = 1035, tx_power = Some (- 72)\<rparr> []
      = Inr ([], [?r])"
    using known ne valid
    by (simp add: beacon_callback_def queue_full_def queue_put_nowait_def get_decimal_gravity_1035 Let_def)
  have bl: "bleak_callback config T [APPLE_MANUFACTURER_ID \<mapsto> ?d] [] = Inr ([], [?r])"
    using p cb by (simp add: bleak_callback_def)
  from ok have sinks: "\<forall>p\<in>set [sink]. \<forall>r w e. fst (provider_update p r w) = Some e \<longrightarrow> is_Exception e"
    by simp
  from handle_pitch_queue_nonempty [OF sinks, of config json cl ?r "[]" w]
  have h: "\<exists>evs x. handle_pitch_queue config json [sink] cl ([?r], w)
                     = (evs, [], snd (provider_update sink ?r w), x)
                 \<and> filter is_Invoke evs = [Invoke (provider_str sink) ?r]"
    by auto
  from p bl h show ?thesis by (simp add: get_decimal_gravity_1035)
qed

theorem scenario_known_identifier_witness:
  "parse ([0x02, 0x15] @ green_ident @ [0x00, 0x46, 0x04, 0x0B, 0xb8] @ [0xff, 0x00])
           = Inr (Some (green_packet 70))
   \<and> bleak_callback (example_config 3) example_TiltStatus
        [APPLE_MANUFACTURER_ID \<mapsto> [0x02, 0x15] @ green_ident @ [0x00, 0x46, 0x04, 0x0B, 0xb8] @ [0xff, 0x00]] []
       = Inr ([], [example_TiltStatus ''green'' 70 gravity_1035])
   \<and> temp_fahrenheit (example_TiltStatus ''green'' 70 gravity_1035) = 70
   \<and> gravity (example_TiltStatus ''green'' 70 gravity_1035) = 4661225614328463 / 4503599627370496
   \<and> handle_pitch_queue (example_config 3) example_json [counting_sink ''a''] True
        ([example_TiltStatus ''green'' 70 gravity_1035], 0)
       = ([Invoke ''a'' (example_TiltStatus ''green'' 70 gravity_1035),
           Print (UpdatedProvider ''a'' ''green''), Print (PrintJson ''green'')], [], 1, None)"
proof -
  have ok: "\<forall>r w. fst (provider_update (counting_sink ''a'') r w) = None"
    by (simp add: counting_sink_def)
  from scenario_known_identifier [where T = example_TiltStatus and rest = "[0xff, 0x00]"
      and config = "example_config 3" and json = example_json and cl = True and w = 0,
      OF uuid_str_green uuid_to_colors_green example_valid ok]
  show ?thesis
    by (auto simp: green_packet_def handle_pitch_queue_def example_config_def queue_empty_def
        queue_full_def queue_get_def counting_sink_def example_json_def example_TiltStatus_def
        TiltStatus_ranges_def gravity_1035_def Let_def)
qed

end
